theory Spec2Isabelle
  imports Complex_Main "HOL-Library.AList"
begin

unbundle bit_operations_syntax

section \<open>Modelling conventions\<close>

text \<open>
  The ledger is written in TypeScript. Its values are modelled as follows.
  \<^item> A \<open>number\<close> that holds a timestamp, an index or a nonce is an integer (\<open>int\<close>, or
    \<open>nat\<close> for the counters that start at zero and only grow).
  \<^item> A \<open>number\<close> that holds a token amount, a balance or a stake has the type \<open>'n\<close>, a
    parameter of the records that carry it. The operations need only \<open>0\<close>, \<open>+\<close>, \<open>-\<close>, \<open><\<close>
    and \<open>\<le>\<close> of that type, so one definition serves for two readings: \<open>number\<close>, the
    doubles that the program computes with, and \<open>int\<close>, the integers with exact
    arithmetic. The two agree on integers as long as every result stays within \<open>2 ^ 53\<close>
    in magnitude (\<open>ofInt_add\<close>, \<open>ofInt_diff\<close>, \<open>ofInt_less\<close>, \<open>ofInt_le\<close>). A theorem says in
    its types which reading it is about.
  \<^item> A \<open>string\<close> is a \<open>string\<close>; \<open>string | null\<close> is a \<open>string option\<close>.
  \<^item> A \<open>Map\<close> is an association list with distinct keys in insertion order:
    \<open>Map.get\<close> is \<open>map_of\<close>, \<open>Map.set\<close> is \<open>AList.update\<close> (an existing key keeps
    its place, a new key goes to the end), \<open>Map.delete\<close> is \<open>AList.delete\<close>.
  \<^item> \<open>Date.now()\<close>, \<open>CryptoUtils.generateId()\<close> and \<open>Math.random()\<close> read the
    environment; the value read is an extra argument of the operation that reads it.
  \<^item> \<open>CryptoUtils.calculateHash\<close> is SHA-256 from the runtime's crypto library. The
    operations take the digest function as their first argument \<open>H\<close>, so the general
    theorems hold for whatever digest is plugged in; the concrete runs plug in \<open>sha256\<close>,
    the function of the standard.
  \<^item> \<open>console.log\<close> output is not modelled.
\<close>

section \<open>Numbers\<close>

text \<open>
  The numbers of JavaScript are IEEE 754 doubles. A finite double is given by the rational
  number it stands for; beside the finite ones there are \<open>Infinity\<close>, \<open>-Infinity\<close> and \<open>NaN\<close>.
  Negative zero is not told apart from zero: only a division or \<open>Object.is\<close> could tell,
  and the code has neither.
\<close>

datatype number = Fin rat | Infinity | NegInfinity | NaN

text \<open>
  Arithmetic on doubles is not code of this repository. It is modelled from its standard:
  the exact result is rounded to the nearest double, a tie going to the even significand.
  A double has 53 significant bits, its least unit is \<open>2 ^ (-1074)\<close>, and a rounded result
  of \<open>2 ^ 1024\<close> or more is infinite.
\<close>

definition pow2 :: "int \<Rightarrow> rat" where
  "pow2 e = (if 0 \<le> e then of_int (2 ^ nat e) else 1 / of_int (2 ^ nat (- e)))"

text \<open>The number of binary digits of a positive integer.\<close>

function bitLength :: "int \<Rightarrow> int" where
  "bitLength n = (if n \<le> 0 then 0 else 1 + bitLength (n div 2))"
  by pat_completeness auto
termination
  by (relation "measure nat") auto

declare bitLength.simps [simp del]

text \<open>For \<open>x > 0\<close>, the exponent \<open>e\<close> with \<open>2 ^ e \<le> x < 2 ^ (e + 1)\<close>.\<close>

definition binade :: "rat \<Rightarrow> int" where
  "binade x =
     (if 1 \<le> x then bitLength \<lfloor>x\<rfloor> - 1
      else (let j = bitLength \<lfloor>1 / x\<rfloor> - 1 in if pow2 (- j) \<le> x then - j else - j - 1))"

definition roundEven :: "rat \<Rightarrow> int" where
  "roundEven x =
     (let f = \<lfloor>x\<rfloor>; d = x - of_int f
      in if d < 1 / 2 then f else if 1 / 2 < d then f + 1 else if even f then f else f + 1)"

definition roundPositive :: "rat \<Rightarrow> number" where
  "roundPositive x =
     (let k = max (binade x - 52) (- 1074);
          y = of_int (roundEven (x / pow2 k)) * pow2 k
      in if pow2 1024 \<le> y then Infinity else Fin y)"

definition nearestDouble :: "rat \<Rightarrow> number" where
  "nearestDouble x =
     (if x = 0 then Fin 0
      else if 0 < x then roundPositive x
      else (case roundPositive (- x) of Fin y \<Rightarrow> Fin (- y) | _ \<Rightarrow> NegInfinity))"

definition negate :: "number \<Rightarrow> number" where
  "negate x =
     (case x of Fin a \<Rightarrow> Fin (- a) | Infinity \<Rightarrow> NegInfinity | NegInfinity \<Rightarrow> Infinity
      | NaN \<Rightarrow> NaN)"

text \<open>
  The operators that the code applies to amounts, balances and stakes: the literal \<open>0\<close>,
  \<open>+\<close>, \<open>-\<close>, \<open><\<close> and \<open><=\<close>. A sum or a comparison with \<open>NaN\<close> is \<open>NaN\<close> or false.
\<close>

instantiation number :: "{zero, plus, minus, ord}"
begin

definition zero_number :: number where
  "zero_number = Fin 0"

definition plus_number :: "number \<Rightarrow> number \<Rightarrow> number" where
  "plus_number x y =
     (case x of
        NaN \<Rightarrow> NaN
      | Fin a \<Rightarrow> (case y of Fin b \<Rightarrow> nearestDouble (a + b) | _ \<Rightarrow> y)
      | Infinity \<Rightarrow> (case y of NaN \<Rightarrow> NaN | NegInfinity \<Rightarrow> NaN | _ \<Rightarrow> Infinity)
      | NegInfinity \<Rightarrow> (case y of NaN \<Rightarrow> NaN | Infinity \<Rightarrow> NaN | _ \<Rightarrow> NegInfinity))"

definition minus_number :: "number \<Rightarrow> number \<Rightarrow> number" where
  "minus_number x y = x + negate y"

definition less_number :: "number \<Rightarrow> number \<Rightarrow> bool" where
  "less_number x y =
     (case x of
        NaN \<Rightarrow> False
      | Fin a \<Rightarrow> (case y of Fin b \<Rightarrow> a < b | Infinity \<Rightarrow> True | _ \<Rightarrow> False)
      | Infinity \<Rightarrow> False
      | NegInfinity \<Rightarrow> (case y of Fin b \<Rightarrow> True | Infinity \<Rightarrow> True | _ \<Rightarrow> False))"

definition less_eq_number :: "number \<Rightarrow> number \<Rightarrow> bool" where
  "less_eq_number x y =
     (case x of
        NaN \<Rightarrow> False
      | Fin a \<Rightarrow> (case y of Fin b \<Rightarrow> a \<le> b | Infinity \<Rightarrow> True | _ \<Rightarrow> False)
      | Infinity \<Rightarrow> (case y of Infinity \<Rightarrow> True | _ \<Rightarrow> False)
      | NegInfinity \<Rightarrow> (case y of NaN \<Rightarrow> False | _ \<Rightarrow> True))"

instance ..

end

text \<open>
  The double of an integer, the integer part of a double, and \<open>Number.isInteger\<close>.
\<close>

definition ofInt :: "int \<Rightarrow> number" where
  "ofInt z = Fin (of_int z)"

definition toInt :: "number \<Rightarrow> int" where
  "toInt x = (case x of Fin q \<Rightarrow> \<lfloor>q\<rfloor> | _ \<Rightarrow> 0)"

definition isInteger :: "number \<Rightarrow> bool" where
  "isInteger x = (x = ofInt (toInt x))"

section \<open>Transactions\<close>

record 'n Transaction =
  tx_id :: string
  fromAddress :: "string option"
  toAddress :: string
  amount :: 'n
  tx_timestamp :: int

text \<open>The constructor; the generated id and the clock reading are arguments.\<close>

definition new_Transaction ::
  "string \<Rightarrow> int \<Rightarrow> string option \<Rightarrow> string \<Rightarrow> 'n \<Rightarrow> 'n Transaction" where
  "new_Transaction i ts from to a =
     \<lparr>tx_id = i, fromAddress = from, toAddress = to, amount = a, tx_timestamp = ts\<rparr>"

text \<open>
  \<open>Transaction.isValid\<close>. In the second test \<open>!this.fromAddress\<close> holds for the empty
  string only, since \<open>null\<close> has returned already; \<open>!this.toAddress\<close> holds for the empty
  string. Every path returns a boolean; there is no \<open>throw\<close>.
\<close>

definition isValid :: "'n::{zero,ord} Transaction \<Rightarrow> bool" where
  "isValid tx =
     (case fromAddress tx of
        None \<Rightarrow> True
      | Some from \<Rightarrow>
          if amount tx \<le> 0 then False
          else if from = [] \<or> toAddress tx = [] then False
          else if from = toAddress tx then False
          else True)"

section \<open>Hashing and Merkle utilities\<close>

text \<open>
  String concatenation with \<open>+\<close> renders a number in decimal. Only integers occur here.
\<close>

definition digit_char :: "int \<Rightarrow> char" where
  "digit_char d = ''0123456789'' ! nat d"

function show_digits :: "int \<Rightarrow> string" where
  "show_digits n =
     (if n < 10 then [digit_char n] else show_digits (n div 10) @ [digit_char (n mod 10)])"
  by pat_completeness auto
termination
  by (relation "measure nat") auto

declare show_digits.simps [simp del]

definition show_int :: "int \<Rightarrow> string" where
  "show_int i = (if i < 0 then CHR ''-'' # show_digits (- i) else show_digits i)"

definition show_nat :: "nat \<Rightarrow> string" where
  "show_nat n = show_digits (int n)"

text \<open>\<open>CryptoUtils.getDifficultyTarget\<close>: \<open>'0'.repeat(difficulty)\<close>.\<close>

definition getDifficultyTarget :: "nat \<Rightarrow> string" where
  "getDifficultyTarget difficulty = replicate difficulty CHR ''0''"

text \<open>
  One pass of the inner \<open>for\<close> loop of \<open>CryptoUtils.calculateMerkleRoot\<close>. The right
  element is \<open>currentLevel[i + 1] || left\<close>: the left element is taken when the index is
  out of range (\<open>undefined\<close>) and also when the right element is the empty string, which
  is falsy as well.
\<close>

fun merkleLevel :: "(string \<Rightarrow> string) \<Rightarrow> string list \<Rightarrow> string list" where
  "merkleLevel H [] = []"
| "merkleLevel H [left] = [H (left @ left)]"
| "merkleLevel H (left # right # rest) =
     H (left @ (if right = [] then left else right)) # merkleLevel H rest"

lemma length_merkleLevel: "length (merkleLevel H xs) = (length xs + 1) div 2"
  by (induction H xs rule: merkleLevel.induct) auto

text \<open>The \<open>while (currentLevel.length > 1)\<close> loop.\<close>

function merkleLoop :: "(string \<Rightarrow> string) \<Rightarrow> string list \<Rightarrow> string list" where
  "merkleLoop H currentLevel =
     (if length currentLevel > 1 then merkleLoop H (merkleLevel H currentLevel)
      else currentLevel)"
  by pat_completeness auto
termination
  by (relation "measure (\<lambda>(H, xs). length xs)") (auto simp: length_merkleLevel)

declare merkleLoop.simps [simp del]

definition calculateMerkleRoot :: "(string \<Rightarrow> string) \<Rightarrow> string list \<Rightarrow> string" where
  "calculateMerkleRoot H transactionIds =
     (if length transactionIds = 0 then H []
      else if length transactionIds = 1 then transactionIds ! 0
      else merkleLoop H transactionIds ! 0)"

text \<open>
  The reduction as the specification words it: adjacent pairs are hashed left to right,
  and the last element is paired with itself exactly when the level has odd length.
\<close>

fun specLevel :: "(string \<Rightarrow> string) \<Rightarrow> string list \<Rightarrow> string list" where
  "specLevel H [] = []"
| "specLevel H [a] = [H (a @ a)]"
| "specLevel H (left # right # rest) = H (left @ right) # specLevel H rest"

lemma length_specLevel: "length (specLevel H xs) = (length xs + 1) div 2"
  by (induction H xs rule: specLevel.induct) auto

function specLoop :: "(string \<Rightarrow> string) \<Rightarrow> string list \<Rightarrow> string list" where
  "specLoop H level = (if length level > 1 then specLoop H (specLevel H level) else level)"
  by pat_completeness auto
termination
  by (relation "measure (\<lambda>(H, xs). length xs)") (auto simp: length_specLevel)

declare specLoop.simps [simp del]

definition specMerkleRoot :: "(string \<Rightarrow> string) \<Rightarrow> string list \<Rightarrow> string" where
  "specMerkleRoot H ids =
     (case ids of [] \<Rightarrow> H [] | [a] \<Rightarrow> a | _ \<Rightarrow> specLoop H ids ! 0)"

subsection \<open>SHA-256\<close>

text \<open>
  \<open>crypto.createHash('sha256').update(input).digest('hex')\<close> is not code of this
  repository. It is modelled from its standard (FIPS 180-4): 32-bit words are integers
  with \<open>mod 2 ^ 32\<close> written out, the input is the byte string of the text, and the
  digest is rendered as 64 lower-case hexadecimal digits. The round constants and the
  initial state are given in decimal.
\<close>

definition sha_K :: "int list" where
  "sha_K =
    [1116352408, 1899447441, 3049323471, 3921009573, 961987163, 1508970993, 2453635748,
     2870763221, 3624381080, 310598401, 607225278, 1426881987, 1925078388, 2162078206,
     2614888103, 3248222580, 3835390401, 4022224774, 264347078, 604807628, 770255983,
     1249150122, 1555081692, 1996064986, 2554220882, 2821834349, 2952996808, 3210313671,
     3336571891, 3584528711, 113926993, 338241895, 666307205, 773529912, 1294757372,
     1396182291, 1695183700, 1986661051, 2177026350, 2456956037, 2730485921, 2820302411,
     3259730800, 3345764771, 3516065817, 3600352804, 4094571909, 275423344, 430227734,
     506948616, 659060556, 883997877, 958139571, 1322822218, 1537002063, 1747873779,
     1955562222, 2024104815, 2227730452, 2361852424, 2428436474, 2756734187, 3204031479,
     3329325298]"

definition sha_init :: "int list" where
  "sha_init =
    [1779033703, 3144134277, 1013904242, 2773480762, 1359893119, 2600822924, 528734635,
     1541459225]"

definition w32 :: "int \<Rightarrow> int" where
  "w32 x = x mod 4294967296"

definition rotr :: "nat \<Rightarrow> int \<Rightarrow> int" where
  "rotr n x = x div 2 ^ n + (x mod 2 ^ n) * 2 ^ (32 - n)"

definition sha_ch :: "int \<Rightarrow> int \<Rightarrow> int \<Rightarrow> int" where
  "sha_ch x y z = (x AND y) XOR ((4294967295 - x) AND z)"

definition sha_maj :: "int \<Rightarrow> int \<Rightarrow> int \<Rightarrow> int" where
  "sha_maj x y z = (x AND y) XOR (x AND z) XOR (y AND z)"

definition big_sigma0 :: "int \<Rightarrow> int" where
  "big_sigma0 x = rotr 2 x XOR rotr 13 x XOR rotr 22 x"

definition big_sigma1 :: "int \<Rightarrow> int" where
  "big_sigma1 x = rotr 6 x XOR rotr 11 x XOR rotr 25 x"

definition small_sigma0 :: "int \<Rightarrow> int" where
  "small_sigma0 x = rotr 7 x XOR rotr 18 x XOR (x div 8)"

definition small_sigma1 :: "int \<Rightarrow> int" where
  "small_sigma1 x = rotr 17 x XOR rotr 19 x XOR (x div 1024)"

text \<open>The message schedule, newest word first: \<open>n\<close> more words are put in front.\<close>

primrec sha_schedule :: "nat \<Rightarrow> int list \<Rightarrow> int list" where
  "sha_schedule 0 ws = ws"
| "sha_schedule (Suc n) ws =
     sha_schedule n
       (w32 (small_sigma1 (ws ! 1) + ws ! 6 + small_sigma0 (ws ! 14) + ws ! 15) # ws)"

text \<open>One round for each scheduled word, with the round constants beside them.\<close>

primrec sha_rounds :: "int list \<Rightarrow> int list \<Rightarrow> int list \<Rightarrow> int list" where
  "sha_rounds [] ks st = st"
| "sha_rounds (w # ws) ks st =
     (case (st, ks) of
        ([a, b, c, d, e, f, g, h], k # ks') \<Rightarrow>
          (let t1 = h + big_sigma1 e + sha_ch e f g + k + w;
               t2 = big_sigma0 a + sha_maj a b c
           in sha_rounds ws ks' [w32 (t1 + t2), a, b, c, w32 (d + t1), e, f, g])
      | _ \<Rightarrow> st)"

definition sha_compress :: "int list \<Rightarrow> int list \<Rightarrow> int list" where
  "sha_compress st block =
     map2 (\<lambda>x y. w32 (x + y)) st (sha_rounds (rev (sha_schedule 48 (rev block))) sha_K st)"

fun be_words :: "int list \<Rightarrow> int list" where
  "be_words (a # b # c # d # rest) = (((a * 256 + b) * 256 + c) * 256 + d) # be_words rest"
| "be_words _ = []"

primrec sha_blocks :: "nat \<Rightarrow> int list \<Rightarrow> int list list" where
  "sha_blocks 0 ws = []"
| "sha_blocks (Suc n) ws = take 16 ws # sha_blocks n (drop 16 ws)"

text \<open>Padding: the byte 128, zeros up to 56 modulo 64, and the bit length in 8 bytes.\<close>

definition sha_pad :: "int list \<Rightarrow> int list" where
  "sha_pad bs =
     (let l = length bs; z = (119 - l mod 64) mod 64; bits = 8 * int l
      in bs @ [128] @ replicate z 0 @ map (\<lambda>i. (bits div 256 ^ (7 - i)) mod 256) [0..<8])"

definition hex_digit :: "int \<Rightarrow> char" where
  "hex_digit d = ''0123456789abcdef'' ! nat d"

definition hex32 :: "int \<Rightarrow> string" where
  "hex32 w = map (\<lambda>i. hex_digit ((w div 16 ^ (7 - i)) mod 16)) [0..<8]"

definition sha256 :: "string \<Rightarrow> string" where
  "sha256 input =
     (let ws = be_words (sha_pad (map of_char input))
      in concat (map hex32 (foldl sha_compress sha_init (sha_blocks (length ws div 16) ws))))"

section \<open>Blocks\<close>

text \<open>
  \<open>TransactionBlock extends Block\<close>: the fields of both classes. \<open>data\<close> is the empty
  string for every transaction block.
\<close>

record 'n TransactionBlock =
  index :: nat
  timestamp :: int
  data :: string
  previousHash :: string
  hash :: string
  nonce :: nat
  transactions :: "'n Transaction list"
  merkleRoot :: string

text \<open>
  \<open>TransactionBlock.calculateHash\<close>: the digest of the concatenation of index,
  previous hash, timestamp, Merkle root and nonce. The transactions themselves are not
  part of the input; they enter through the stored \<open>merkleRoot\<close> field only.
\<close>

definition calculateHash :: "(string \<Rightarrow> string) \<Rightarrow> 'n TransactionBlock \<Rightarrow> string" where
  "calculateHash H b =
     H (show_nat (index b) @ previousHash b @ show_int (timestamp b) @ merkleRoot b
        @ show_nat (nonce b))"

text \<open>\<open>TransactionBlock.calculateMerkleRoot\<close>: over the ids of the transactions.\<close>

definition blockMerkleRoot :: "(string \<Rightarrow> string) \<Rightarrow> 'n TransactionBlock \<Rightarrow> string" where
  "blockMerkleRoot H b = calculateMerkleRoot H (map tx_id (transactions b))"

definition hasValidTransactions :: "'n::{zero,ord} TransactionBlock \<Rightarrow> bool" where
  "hasValidTransactions b = list_all isValid (transactions b)"

text \<open>
  The constructor. The clock reading is the argument \<open>now\<close>. The hash that the base
  class computes before \<open>merkleRoot\<close> is assigned is overwritten by the last statement,
  so only the final value is kept.
\<close>

definition new_TransactionBlock ::
  "(string \<Rightarrow> string) \<Rightarrow> int \<Rightarrow> nat \<Rightarrow> 'n Transaction list \<Rightarrow> string \<Rightarrow> 'n TransactionBlock" where
  "new_TransactionBlock H now i txs prev =
     (let b0 = \<lparr>index = i, timestamp = now, data = [], previousHash = prev, hash = [],
                nonce = 0, transactions = txs, merkleRoot = []\<rparr>;
          b1 = b0\<lparr>merkleRoot := blockMerkleRoot H b0\<rparr>
      in b1\<lparr>hash := calculateHash H b1\<rparr>)"

text \<open>
  \<open>Block.mineBlock\<close>: the nonce search. The loop has no bound, so the model is a partial
  function: \<open>None\<close> stands for a search that never ends.
\<close>

definition meetsTarget :: "nat \<Rightarrow> string \<Rightarrow> bool" where
  "meetsTarget difficulty h = (take difficulty h = getDifficultyTarget difficulty)"

partial_function (option) mineBlock ::
  "(string \<Rightarrow> string) \<Rightarrow> nat \<Rightarrow> 'n TransactionBlock \<Rightarrow> 'n TransactionBlock option" where
  "mineBlock H difficulty b =
     (if \<not> meetsTarget difficulty (hash b)
      then mineBlock H difficulty
             (b\<lparr>nonce := nonce b + 1, hash := calculateHash H (b\<lparr>nonce := nonce b + 1\<rparr>)\<rparr>)
      else Some b)"

declare mineBlock.simps [code]

section \<open>The Proof-of-Work chain\<close>

record 'n Blockchain =
  chain :: "'n TransactionBlock list"
  difficulty :: nat
  pendingTransactions :: "'n Transaction list"
  miningReward :: 'n
  balances :: "(string \<times> 'n) list"

datatype error = InvalidTransaction | NotEnoughBalance | TypeError

text \<open>
  A call either returns a value or throws. The state after the call is kept beside the
  outcome in both cases, since a \<open>throw\<close> does not undo earlier writes.
\<close>

datatype 'a outcome = Returned 'a | Thrown error

text \<open>
  The constructor. The genesis block is built by the block constructor alone; it is not
  mined and it is not applied to the balances.
\<close>

definition createGenesisBlock ::
  "(string \<Rightarrow> string) \<Rightarrow> string \<Rightarrow> int \<Rightarrow> int \<Rightarrow> 'n::zero TransactionBlock" where
  "createGenesisBlock H gid gnow bnow =
     new_TransactionBlock H bnow 0 [new_Transaction gid gnow None ''genesis'' 0] ''0''"

definition new_Blockchain :: "(string \<Rightarrow> string) \<Rightarrow> string \<Rightarrow> int \<Rightarrow> int \<Rightarrow> int Blockchain" where
  "new_Blockchain H gid gnow bnow =
     \<lparr>chain = [createGenesisBlock H gid gnow bnow], difficulty = 3,
      pendingTransactions = [], miningReward = 10, balances = []\<rparr>"

text \<open>The constructor where the numbers are doubles.\<close>

definition new_Blockchain_number ::
  "(string \<Rightarrow> string) \<Rightarrow> string \<Rightarrow> int \<Rightarrow> int \<Rightarrow> number Blockchain" where
  "new_Blockchain_number H gid gnow bnow =
     \<lparr>chain = [createGenesisBlock H gid gnow bnow], difficulty = 3,
      pendingTransactions = [], miningReward = Fin 10, balances = []\<rparr>"

text \<open>
  \<open>x || 0\<close> on a number \<open>x\<close>: the falsy numbers \<open>0\<close> and \<open>NaN\<close> give \<open>0\<close>, every other
  number gives itself. \<open>NaN\<close> is the one number that is not \<open>\<le>\<close> itself.
\<close>

definition orZero :: "'n::{zero,ord} \<Rightarrow> 'n" where
  "orZero x = (if x \<le> x then x else 0)"

lemma orZero_exact [simp]: "orZero (x :: 'a :: {zero,preorder}) = x"
  by (simp add: orZero_def)

text \<open>\<open>this.balances.get(address) || 0\<close>; a missing key reads \<open>undefined\<close>.\<close>

definition lookupBalance :: "(string \<times> 'n::{zero,ord}) list \<Rightarrow> string \<Rightarrow> 'n" where
  "lookupBalance bal address = (case map_of bal address of None \<Rightarrow> 0 | Some v \<Rightarrow> orZero v)"

definition getBalance :: "'n::{zero,ord} Blockchain \<Rightarrow> string \<Rightarrow> 'n" where
  "getBalance s address = lookupBalance (balances s) address"

text \<open>\<open>createTransaction\<close>: two guards that throw, then the push.\<close>

definition createTransaction ::
  "'n::{zero,ord} Blockchain \<Rightarrow> 'n Transaction \<Rightarrow> unit outcome \<times> 'n Blockchain" where
  "createTransaction s tx =
     (if \<not> isValid tx then (Thrown InvalidTransaction, s)
      else if fromAddress tx \<noteq> None \<and> getBalance s (the (fromAddress tx)) < amount tx
      then (Thrown NotEnoughBalance, s)
      else (Returned (), s\<lparr>pendingTransactions := pendingTransactions s @ [tx]\<rparr>))"

text \<open>
  \<open>updateBalances\<close>. The debit is guarded by \<open>if (transaction.fromAddress)\<close>: it is skipped
  for \<open>null\<close> and for the empty string. The credit is unconditional.
\<close>

definition applyTransaction ::
  "(string \<times> 'n::{zero,ord,plus,minus}) list \<Rightarrow> 'n Transaction \<Rightarrow> (string \<times> 'n) list" where
  "applyTransaction bal tx =
     (let bal1 = (case fromAddress tx of
                    None \<Rightarrow> bal
                  | Some from \<Rightarrow>
                      if from = [] then bal
                      else AList.update from (lookupBalance bal from - amount tx) bal)
      in AList.update (toAddress tx) (lookupBalance bal1 (toAddress tx) + amount tx) bal1)"

definition updateBalances ::
  "(string \<times> 'n::{zero,ord,plus,minus}) list \<Rightarrow> 'n Transaction list \<Rightarrow> (string \<times> 'n) list" where
  "updateBalances bal txs = foldl applyTransaction bal txs"

text \<open>
  \<open>minePendingTransactions\<close>. The id and the clock reading of the reward transaction and
  the clock reading of the block are arguments. The reward is pushed first. Then
  \<open>getLatestBlock().hash\<close> is read, which throws on an empty chain. The result is \<open>None\<close>
  when the nonce search never ends.
\<close>

definition minePendingTransactions ::
  "(string \<Rightarrow> string) \<Rightarrow> string \<Rightarrow> int \<Rightarrow> int \<Rightarrow> string \<Rightarrow> 'n::{zero,ord,plus,minus} Blockchain
     \<Rightarrow> (unit outcome \<times> 'n Blockchain) option" where
  "minePendingTransactions H rid rnow bnow miningRewardAddress s =
     (let rewardTransaction = new_Transaction rid rnow None miningRewardAddress (miningReward s);
          s1 = s\<lparr>pendingTransactions := pendingTransactions s @ [rewardTransaction]\<rparr>
      in if chain s1 = [] then Some (Thrown TypeError, s1)
         else case mineBlock H (difficulty s1)
                     (new_TransactionBlock H bnow (length (chain s1)) (pendingTransactions s1)
                        (hash (last (chain s1)))) of
                None \<Rightarrow> None
              | Some block \<Rightarrow>
                  Some (Returned (),
                        s1\<lparr>chain := chain s1 @ [block],
                           balances := updateBalances (balances s1) (transactions block),
                           pendingTransactions := []\<rparr>))"

text \<open>
  \<open>isChainValid\<close>: the loop over \<open>i = 1, ..., chain.length - 1\<close>, in the order of the
  four tests of the source.
\<close>

function isChainValidFrom :: "(string \<Rightarrow> string) \<Rightarrow> 'n::{zero,ord} Blockchain \<Rightarrow> nat \<Rightarrow> bool" where
  "isChainValidFrom H s i =
     (if i < length (chain s) then
        (let currentBlock = chain s ! i; previousBlock = chain s ! (i - 1)
         in if \<not> hasValidTransactions currentBlock then False
            else if hash currentBlock \<noteq> calculateHash H currentBlock then False
            else if previousHash currentBlock \<noteq> hash previousBlock then False
            else if take (difficulty s) (hash currentBlock) \<noteq> getDifficultyTarget (difficulty s)
            then False
            else isChainValidFrom H s (i + 1))
      else True)"
  by pat_completeness auto
termination
  by (relation "measure (\<lambda>(H, s, i). length (chain s) - i)") auto

declare isChainValidFrom.simps [simp del]

definition isChainValid :: "(string \<Rightarrow> string) \<Rightarrow> 'n::{zero,ord} Blockchain \<Rightarrow> bool" where
  "isChainValid H s = isChainValidFrom H s 1"

text \<open>
  Writing \<open>chain[i].transactions[j].amount = v\<close> from outside, as the demonstration in
  \<open>main.ts\<close> does; \<open>i\<close> and \<open>j\<close> are meant to be in range.
\<close>

definition tamperAmount :: "'n Blockchain \<Rightarrow> nat \<Rightarrow> nat \<Rightarrow> 'n \<Rightarrow> 'n Blockchain" where
  "tamperAmount s i j v =
     s\<lparr>chain := (chain s)[i := (chain s ! i)
          \<lparr>transactions := (transactions (chain s ! i))[j := (transactions (chain s ! i) ! j)\<lparr>amount := v\<rparr>]\<rparr>]\<rparr>"

section \<open>The Proof-of-Stake chain\<close>

text \<open>
  \<open>pos-blockchain.ts\<close> declares its own \<open>Transaction\<close> class, with the same fields and
  the same \<open>isValid\<close>, and its own \<open>updateBalances\<close> and \<open>getBalance\<close>, with the same
  bodies; the definitions above serve for both.
\<close>

record 'n Validator =
  address :: string
  stake :: 'n
  isActive :: bool
  joinedAt :: int

record 'n PosBlock =
  pos_index :: nat
  pos_timestamp :: int
  pos_transactions :: "'n Transaction list"
  pos_previousHash :: string
  pos_hash :: string
  validator :: string
  validatorBalance :: 'n
  pos_merkleRoot :: string

definition pos_calculateHash :: "(string \<Rightarrow> string) \<Rightarrow> int PosBlock \<Rightarrow> string" where
  "pos_calculateHash H b =
     H (show_nat (pos_index b) @ pos_previousHash b @ show_int (pos_timestamp b)
        @ pos_merkleRoot b @ validator b @ show_int (validatorBalance b))"

definition new_PosBlock ::
  "(string \<Rightarrow> string) \<Rightarrow> int \<Rightarrow> nat \<Rightarrow> int Transaction list \<Rightarrow> string \<Rightarrow> string \<Rightarrow> int
     \<Rightarrow> int PosBlock" where
  "new_PosBlock H now i txs prev val bal =
     (let b0 = \<lparr>pos_index = i, pos_timestamp = now, pos_transactions = txs,
                pos_previousHash = prev, pos_hash = [], validator = val,
                validatorBalance = bal, pos_merkleRoot = []\<rparr>;
          b1 = b0\<lparr>pos_merkleRoot := calculateMerkleRoot H (map tx_id (pos_transactions b0))\<rparr>
      in b1\<lparr>pos_hash := pos_calculateHash H b1\<rparr>)"

record 'n ProofOfStakeBlockchain =
  pos_chain :: "'n PosBlock list"
  pos_pendingTransactions :: "'n Transaction list"
  validators :: "(string \<times> 'n Validator) list"
  pos_balances :: "(string \<times> 'n) list"
  minimumStake :: 'n
  blockReward :: 'n

definition pos_createGenesisBlock :: "(string \<Rightarrow> string) \<Rightarrow> string \<Rightarrow> int \<Rightarrow> int \<Rightarrow> int PosBlock" where
  "pos_createGenesisBlock H gid gnow bnow =
     new_PosBlock H bnow 0 [new_Transaction gid gnow None ''genesis'' 0] ''0'' ''genesis'' 0"

definition new_ProofOfStakeBlockchain ::
  "(string \<Rightarrow> string) \<Rightarrow> string \<Rightarrow> int \<Rightarrow> int \<Rightarrow> int ProofOfStakeBlockchain" where
  "new_ProofOfStakeBlockchain H gid gnow bnow =
     \<lparr>pos_chain = [pos_createGenesisBlock H gid gnow bnow], pos_pendingTransactions = [],
      validators = [], pos_balances = [], minimumStake = 32, blockReward = 5\<rparr>"

definition pos_getBalance :: "'n::{zero,ord} ProofOfStakeBlockchain \<Rightarrow> string \<Rightarrow> 'n" where
  "pos_getBalance s a = lookupBalance (pos_balances s) a"

text \<open>
  \<open>stakeTokens\<close>. The clock reading for \<open>joinedAt\<close> is the argument \<open>now\<close>. An existing
  validator object is updated in place, so it keeps its position in the registry.
\<close>

definition stakeTokens ::
  "'n::{zero,ord,plus,minus} ProofOfStakeBlockchain \<Rightarrow> int \<Rightarrow> string \<Rightarrow> 'n
     \<Rightarrow> bool \<times> 'n ProofOfStakeBlockchain" where
  "stakeTokens s now a amt =
     (let balance = pos_getBalance s a
      in if balance < amt then (False, s)
         else if amt < minimumStake s then (False, s)
         else
           (let s1 = s\<lparr>pos_balances := AList.update a (balance - amt) (pos_balances s)\<rparr>
            in case map_of (validators s1) a of
                 Some existingValidator \<Rightarrow>
                   (True, s1\<lparr>validators :=
                      AList.update a (existingValidator\<lparr>stake := stake existingValidator + amt\<rparr>)
                        (validators s1)\<rparr>)
               | None \<Rightarrow>
                   (True, s1\<lparr>validators :=
                      AList.update a \<lparr>address = a, stake = amt, isActive = True, joinedAt = now\<rparr>
                        (validators s1)\<rparr>)))"

text \<open>
  \<open>unstakeTokens\<close>: the stake is lowered first, the entry is deleted when the lowered
  stake is under the minimum, and then \<open>amount\<close> is credited.
\<close>

definition unstakeTokens ::
  "'n::{zero,ord,plus,minus} ProofOfStakeBlockchain \<Rightarrow> string \<Rightarrow> 'n
     \<Rightarrow> bool \<times> 'n ProofOfStakeBlockchain" where
  "unstakeTokens s a amt =
     (case map_of (validators s) a of
        None \<Rightarrow> (False, s)
      | Some v \<Rightarrow>
          if stake v < amt then (False, s)
          else
            (let v1 = v\<lparr>stake := stake v - amt\<rparr>;
                 vs1 = AList.update a v1 (validators s);
                 vs2 = (if stake v1 < minimumStake s then AList.delete a vs1 else vs1);
                 s1 = s\<lparr>validators := vs2\<rparr>;
                 currentBalance = pos_getBalance s1 a
             in (True, s1\<lparr>pos_balances := AList.update a (currentBalance + amt) (pos_balances s1)\<rparr>)))"

text \<open>
  \<open>selectValidator\<close>. The value of \<open>Math.random()\<close> is the argument \<open>r\<close>. The loop
  returns the first validator whose running sum reaches the target.
\<close>

fun selectLoop :: "rat \<Rightarrow> int \<Rightarrow> int Validator list \<Rightarrow> string option" where
  "selectLoop randomTarget currentSum [] = None"
| "selectLoop randomTarget currentSum (v # vs) =
     (if randomTarget \<le> of_int (currentSum + stake v) then Some (address v)
      else selectLoop randomTarget (currentSum + stake v) vs)"

definition selectValidator :: "int ProofOfStakeBlockchain \<Rightarrow> rat \<Rightarrow> string option" where
  "selectValidator s r =
     (let activeValidators = filter isActive (map snd (validators s))
      in if length activeValidators = 0 then None
         else
           (let totalStake = foldl (\<lambda>sum v. sum + stake v) 0 activeValidators;
                randomTarget = r * of_int totalStake
            in case selectLoop randomTarget 0 activeValidators of
                 Some a \<Rightarrow> Some a
               | None \<Rightarrow> Some (address (activeValidators ! 0))))"

definition pos_createTransaction ::
  "'n::{zero,ord} ProofOfStakeBlockchain \<Rightarrow> 'n Transaction
     \<Rightarrow> unit outcome \<times> 'n ProofOfStakeBlockchain" where
  "pos_createTransaction s tx =
     (if \<not> isValid tx then (Thrown InvalidTransaction, s)
      else if fromAddress tx \<noteq> None \<and> pos_getBalance s (the (fromAddress tx)) < amount tx
      then (Thrown NotEnoughBalance, s)
      else (Returned (), s\<lparr>pos_pendingTransactions := pos_pendingTransactions s @ [tx]\<rparr>))"

text \<open>
  \<open>forgeBlock\<close>. The test \<open>!selectedValidator\<close> holds for \<open>null\<close> and for the empty
  string. After the reward is pushed, the arguments of the block constructor are read:
  \<open>getLatestBlock().hash\<close> throws on an empty chain, and \<open>validator.stake\<close> throws when the
  selected address has no entry in the registry.
\<close>

definition forgeBlock ::
  "(string \<Rightarrow> string) \<Rightarrow> rat \<Rightarrow> string \<Rightarrow> int \<Rightarrow> int \<Rightarrow> int ProofOfStakeBlockchain
     \<Rightarrow> bool outcome \<times> int ProofOfStakeBlockchain" where
  "forgeBlock H r rid rnow bnow s =
     (case selectValidator s r of
        None \<Rightarrow> (Returned False, s)
      | Some selectedValidator \<Rightarrow>
          if selectedValidator = [] then (Returned False, s)
          else
            (let rewardTransaction = new_Transaction rid rnow None selectedValidator (blockReward s);
                 s1 = s\<lparr>pos_pendingTransactions := pos_pendingTransactions s @ [rewardTransaction]\<rparr>
             in if pos_chain s1 = [] then (Thrown TypeError, s1)
                else case map_of (validators s1) selectedValidator of
                       None \<Rightarrow> (Thrown TypeError, s1)
                     | Some v \<Rightarrow>
                         (let block = new_PosBlock H bnow (length (pos_chain s1))
                                        (pos_pendingTransactions s1) (pos_hash (last (pos_chain s1)))
                                        selectedValidator (stake v)
                          in (Returned True,
                              s1\<lparr>pos_chain := pos_chain s1 @ [block],
                                 pos_balances := updateBalances (pos_balances s1) (pos_transactions block),
                                 pos_pendingTransactions := []\<rparr>))))"


text \<open>The sum of all entries of a balance map.\<close>

definition sumBalances :: "(string \<times> int) list \<Rightarrow> int" where
  "sumBalances bal = sum_list (map snd bal)"

section \<open>Reachable states and auxiliary notions\<close>

text \<open>One round of the nonce search: the body of the \<open>while\<close> loop of \<open>mineBlock\<close>.\<close>

definition nextNonce :: "(string \<Rightarrow> string) \<Rightarrow> 'n TransactionBlock \<Rightarrow> 'n TransactionBlock" where
  "nextNonce H b = b\<lparr>nonce := nonce b + 1, hash := calculateHash H (b\<lparr>nonce := nonce b + 1\<rparr>)\<rparr>"

text \<open>What a finished search has established about its result.\<close>

definition minedFrom ::
  "(string \<Rightarrow> string) \<Rightarrow> nat \<Rightarrow> 'n TransactionBlock \<Rightarrow> 'n TransactionBlock \<Rightarrow> bool" where
  "minedFrom H d b b' =
     (meetsTarget d (hash b') \<and> index b' = index b \<and> timestamp b' = timestamp b \<and>
      data b' = data b \<and> previousHash b' = previousHash b \<and>
      transactions b' = transactions b \<and> merkleRoot b' = merkleRoot b \<and>
      (hash b = calculateHash H b \<longrightarrow> hash b' = calculateHash H b'))"

text \<open>Some nonce at or above the current one gives a hash that meets the target.\<close>

definition sealable :: "(string \<Rightarrow> string) \<Rightarrow> nat \<Rightarrow> 'n TransactionBlock \<Rightarrow> bool" where
  "sealable H d b = (\<exists>n. meetsTarget d (calculateHash H (b\<lparr>nonce := nonce b + n\<rparr>)))"

text \<open>
  The states of a Proof-of-Stake chain that its public operations reach. The module's own
  demonstration seeds the balance map directly before it stakes, and without a seed no
  address can ever stake; so a run starts from the constructor's state with any balance
  map. A call that fails or throws is a step too, to the state it leaves behind.
\<close>

inductive pos_reachable :: "(string \<Rightarrow> string) \<Rightarrow> int ProofOfStakeBlockchain \<Rightarrow> bool"
  for H :: "string \<Rightarrow> string" where
  pos_init: "pos_reachable H ((new_ProofOfStakeBlockchain H gid gnow bnow)\<lparr>pos_balances := seed\<rparr>)"
| pos_stake: "pos_reachable H s \<Longrightarrow> stakeTokens s now a amt = (ok, s') \<Longrightarrow> pos_reachable H s'"
| pos_unstake: "pos_reachable H s \<Longrightarrow> unstakeTokens s a amt = (ok, s') \<Longrightarrow> pos_reachable H s'"
| pos_submit: "pos_reachable H s \<Longrightarrow> pos_createTransaction s tx = (res, s') \<Longrightarrow> pos_reachable H s'"
| pos_forge: "pos_reachable H s \<Longrightarrow> forgeBlock H r rid rnow bnow s = (fres, s') \<Longrightarrow> pos_reachable H s'"

definition stakeThreshold :: "int ProofOfStakeBlockchain \<Rightarrow> bool" where
  "stakeThreshold s =
     (minimumStake s = 32 \<and> (\<forall>a v. map_of (validators s) a = Some v \<longrightarrow> minimumStake s \<le> stake v))"



text \<open>
  The states of a Proof-of-Work chain that \<open>createTransaction\<close> and
  \<open>minePendingTransactions\<close> reach from the constructor's state. A call that throws is a step
  too, to the state it leaves behind; a nonce search that never ends is not a step.
\<close>

inductive pow_reachable :: "(string \<Rightarrow> string) \<Rightarrow> int Blockchain \<Rightarrow> bool"
  for H :: "string \<Rightarrow> string" where
  pow_init: "pow_reachable H (new_Blockchain H gid gnow bnow)"
| pow_submit: "pow_reachable H s \<Longrightarrow> createTransaction s tx = (res, s') \<Longrightarrow> pow_reachable H s'"
| pow_mine: "pow_reachable H s \<Longrightarrow>
     minePendingTransactions H rid rnow bnow miner s = Some (res, s') \<Longrightarrow> pow_reachable H s'"

text \<open>The block that \<open>minePendingTransactions\<close> builds and hands to the nonce search.\<close>

definition candidateBlock ::
  "(string \<Rightarrow> string) \<Rightarrow> string \<Rightarrow> int \<Rightarrow> int \<Rightarrow> string \<Rightarrow> 'n Blockchain \<Rightarrow> 'n TransactionBlock" where
  "candidateBlock H rid rnow bnow miner s =
     new_TransactionBlock H bnow (length (chain s))
       (pendingTransactions s @ [new_Transaction rid rnow None miner (miningReward s)])
       (hash (last (chain s)))"

text \<open>The four tests of \<open>isChainValid\<close> at index \<open>i\<close>, all passed.\<close>

definition blockSealed :: "(string \<Rightarrow> string) \<Rightarrow> 'n::{zero,ord} Blockchain \<Rightarrow> nat \<Rightarrow> bool" where
  "blockSealed H s i =
     (hasValidTransactions (chain s ! i) \<and>
      hash (chain s ! i) = calculateHash H (chain s ! i) \<and>
      previousHash (chain s ! i) = hash (chain s ! (i - 1)) \<and>
      take (difficulty s) (hash (chain s ! i)) = getDifficultyTarget (difficulty s))"

definition chainInvariant :: "(string \<Rightarrow> string) \<Rightarrow> 'n::{zero,ord} Blockchain \<Rightarrow> bool" where
  "chainInvariant H s =
     (chain s \<noteq> [] \<and> difficulty s = 3 \<and> list_all isValid (pendingTransactions s) \<and>
      (\<forall>i. 1 \<le> i \<and> i < length (chain s) \<longrightarrow> blockSealed H s i))"

text \<open>
  What one transaction adds to the sum of all balances: its amount when the debit is
  skipped, nothing when sender and recipient are both booked.
\<close>

definition minted :: "int Transaction \<Rightarrow> int" where
  "minted tx = (if fromAddress tx = None \<or> fromAddress tx = Some [] then amount tx else 0)"

text \<open>The same reachable states where the numbers are doubles.\<close>

inductive pow_reachable_number :: "(string \<Rightarrow> string) \<Rightarrow> number Blockchain \<Rightarrow> bool"
  for H :: "string \<Rightarrow> string" where
  number_init: "pow_reachable_number H (new_Blockchain_number H gid gnow bnow)"
| number_submit:
    "pow_reachable_number H s \<Longrightarrow> createTransaction s tx = (res, s') \<Longrightarrow> pow_reachable_number H s'"
| number_mine: "pow_reachable_number H s \<Longrightarrow>
     minePendingTransactions H rid rnow bnow miner s = Some (res, s') \<Longrightarrow>
     pow_reachable_number H s'"

text \<open>
  The transactions of the blocks after the genesis block, and the sum of their absolute
  amounts where the amounts are doubles.
\<close>

definition sealedTransactions :: "'n Blockchain \<Rightarrow> 'n Transaction list" where
  "sealedTransactions s = concat (map transactions (tl (chain s)))"

definition sealedVolume :: "number Blockchain \<Rightarrow> int" where
  "sealedVolume s = sum_list (map (\<lambda>t. \<bar>toInt (amount t)\<bar>) (sealedTransactions s))"

text \<open>A transaction and a balance map read with integers for doubles, and back.\<close>

definition intTransaction :: "number Transaction \<Rightarrow> int Transaction" where
  "intTransaction tx =
     \<lparr>tx_id = tx_id tx, fromAddress = fromAddress tx, toAddress = toAddress tx,
      amount = toInt (amount tx), tx_timestamp = tx_timestamp tx\<rparr>"

definition numberBalances :: "(string \<times> int) list \<Rightarrow> (string \<times> number) list" where
  "numberBalances bal = map (\<lambda>(a, v). (a, ofInt v)) bal"

definition numberLedger :: "number Blockchain \<Rightarrow> bool" where
  "numberLedger s =
     (chain s \<noteq> [] \<and> miningReward s = Fin 10 \<and> list_all isValid (pendingTransactions s) \<and>
      (\<forall>b \<in> set (tl (chain s)).
          transactions b \<noteq> [] \<and> list_all isValid (transactions b) \<and>
          fromAddress (last (transactions b)) = None \<and>
          amount (last (transactions b)) = miningReward s) \<and>
      ((\<forall>t \<in> set (sealedTransactions s). isInteger (amount t)) \<and>
       sealedVolume s \<le> 9007199254740992 \<longrightarrow>
         (\<exists>bal. balances s = numberBalances bal \<and> distinct (map fst bal) \<and>
                (\<forall>v \<in> snd ` set bal. \<bar>v\<bar> \<le> sealedVolume s) \<and>
                sumBalances bal =
                  sum_list (map (\<lambda>t. minted (intTransaction t)) (sealedTransactions s)))))"

text \<open>
  Concrete Proof-of-Work runs with SHA-256. The ids are 32 hexadecimal digits, as
  \<open>generateId\<close> returns them, and the clock readings are milliseconds.
\<close>

definition powDemo0 :: "int Blockchain" where
  "powDemo0 = new_Blockchain sha256 ''29be5d2129810b3824c2771116e58928'' 1762128000000 1762128000000"

definition afterMining ::
  "(string \<Rightarrow> string) \<Rightarrow> string \<Rightarrow> int \<Rightarrow> int \<Rightarrow> string \<Rightarrow> 'n::{zero,ord,plus,minus} Blockchain
     \<Rightarrow> 'n Blockchain" where
  "afterMining H rid rnow bnow miner s =
     (case minePendingTransactions H rid rnow bnow miner s of
        Some (res, s') \<Rightarrow> s' | None \<Rightarrow> s)"

text \<open>A null-sender transaction of 50 to alice, then a block mined by alice.\<close>

definition firstPool :: "int Blockchain" where
  "firstPool =
     snd (createTransaction powDemo0
            (new_Transaction ''9d8ad616fd35cf2c9eaa3ca931b51313'' 1762128000040 None ''alice'' 50))"

definition firstDemo :: "int Blockchain" where
  "firstDemo =
     afterMining sha256 ''420327f58fd2076337d5e2337304cebf'' 1762128000095 1762128000095 ''alice''
       firstPool"

text \<open>
  Runs where the numbers are doubles. A block mined by alice; then a transfer of 4 from
  alice to bob in a block mined by bob; or else a transfer of \<open>0.001\<close> from alice to bob
  in a block mined by alice. The literal \<open>0.001\<close> is the double nearest to a thousandth.
\<close>

definition numberDemo0 :: "number Blockchain" where
  "numberDemo0 =
     new_Blockchain_number sha256 ''29be5d2129810b3824c2771116e58928'' 1762128000000 1762128000000"

definition numberFirst :: "number Blockchain" where
  "numberFirst =
     afterMining sha256 ''1514b2dd7b59992aec7ae3775133f542'' 1762128000060 1762128000060 ''alice''
       numberDemo0"

definition wholePool :: "number Blockchain" where
  "wholePool =
     snd (createTransaction numberFirst
            (new_Transaction ''71ad34b460979f64683e0a984d06c823'' 1762128005000 (Some ''alice'')
               ''bob'' (Fin 4)))"

definition wholeDemo :: "number Blockchain" where
  "wholeDemo =
     afterMining sha256 ''70d5d461cf9c17f5d5b2dcf10f5438e4'' 1762128009000 1762128009000 ''bob''
       wholePool"

definition fractionPool :: "number Blockchain" where
  "fractionPool =
     snd (createTransaction numberFirst
            (new_Transaction ''71ad34b460979f64683e0a984d06c823'' 1762128005000 (Some ''alice'')
               ''bob'' (nearestDouble (1 / 1000))))"

definition fractionDemo :: "number Blockchain" where
  "fractionDemo =
     afterMining sha256 ''70d5d461cf9c17f5d5b2dcf10f5438e4'' 1762128009000 1762128009000 ''alice''
       fractionPool"

section \<open>Doubles that hold integers\<close>

lemma bitLength_nonneg: "0 \<le> bitLength n"
proof (induction n rule: bitLength.induct)
  case (1 n)
  then show ?case by (subst bitLength.simps) auto
qed

lemma bitLength_pos: "0 < n \<Longrightarrow> 1 \<le> bitLength n"
  using bitLength_nonneg [of "n div 2"] by (subst bitLength.simps) simp

lemma bitLength_bounds:
  "0 < n \<Longrightarrow> 2 ^ nat (bitLength n - 1) \<le> n \<and> n < 2 ^ nat (bitLength n)"
proof (induction n rule: bitLength.induct)
  case (1 n)
  show ?case
  proof (cases "n = 1")
    case True
    have "bitLength 1 = 1"
      by (subst bitLength.simps, subst bitLength.simps) simp
    with True show ?thesis by simp
  next
    case False
    with "1.prems" have half: "0 < n div 2" by simp
    from "1.prems" have nle: "\<not> n \<le> 0" by simp
    from "1.IH" [OF nle half]
    have lo: "2 ^ nat (bitLength (n div 2) - 1) \<le> n div 2"
      and hi: "n div 2 < 2 ^ nat (bitLength (n div 2))" by simp_all
    have bl: "bitLength n = 1 + bitLength (n div 2)"
      using nle by (subst bitLength.simps) simp
    have p: "1 \<le> bitLength (n div 2)" using half by (rule bitLength_pos)
    have e1: "nat (bitLength n - 1) = Suc (nat (bitLength (n div 2) - 1))"
      using p bl by simp
    have e2: "nat (bitLength n) = Suc (nat (bitLength (n div 2)))"
      using p bl by simp
    have "2 * (n div 2) \<le> n" by simp
    with lo have a: "2 ^ nat (bitLength n - 1) \<le> n" unfolding e1 by simp
    have "n < 2 * (n div 2 + 1)" by simp
    moreover from hi have "2 * (n div 2 + 1) \<le> 2 * 2 ^ nat (bitLength (n div 2))" by simp
    ultimately have b: "n < 2 ^ nat (bitLength n)" unfolding e2 by simp
    from a b show ?thesis by simp
  qed
qed

lemma roundEven_of_int: "roundEven (of_int n) = n"
  by (simp add: roundEven_def)

lemma roundPositive_of_int:
  assumes pos: "0 < z" and le: "z \<le> 9007199254740992"
  shows "roundPositive (of_int z) = Fin (of_int z)"
proof -
  define e where "e = bitLength z - 1"
  from bitLength_bounds [OF pos] have lo: "2 ^ nat e \<le> z"
    by (simp add: e_def)
  have e0: "0 \<le> e" using bitLength_pos [OF pos] by (simp add: e_def)
  have b: "binade (of_int z) = e"
    using pos by (simp add: binade_def e_def)
  have e53: "e \<le> 53"
  proof (rule ccontr)
    assume "\<not> e \<le> 53"
    then have "54 \<le> nat e" by simp
    then have "(2::int) ^ 54 \<le> 2 ^ nat e" by (rule power_increasing) simp
    with lo le show False by simp
  qed
  have small: "\<not> pow2 1024 \<le> (of_int z :: rat)"
  proof -
    have "z < 2 ^ 1024" using le by (rule le_less_trans) simp
    then have "(of_int z :: rat) < of_int (2 ^ 1024)" by (simp only: of_int_less_iff)
    then show ?thesis by (simp add: pow2_def)
  qed
  show ?thesis
  proof (cases "e \<le> 52")
    case True
    define m where "m = nat (52 - e)"
    have k: "max (e - 52) (- 1074) = e - 52" using e0 by simp
    have pk: "pow2 (e - 52) = 1 / 2 ^ m"
      using True by (cases "e = 52") (simp_all add: pow2_def m_def)
    have q: "(of_int z :: rat) / pow2 (e - 52) = of_int (z * 2 ^ m)"
      by (simp add: pk)
    have y: "of_int (roundEven (of_int z / pow2 (e - 52))) * pow2 (e - 52) = (of_int z :: rat)"
      unfolding q roundEven_of_int by (simp add: pk)
    show ?thesis
      unfolding roundPositive_def b k Let_def y using small by simp
  next
    case False
    with e53 have e: "e = 53" by simp
    with lo le have z: "z = 9007199254740992" by simp
    have k: "max (e - 52) (- 1074) = 1" using e by simp
    have q: "(of_int z :: rat) / pow2 1 = of_int 4503599627370496"
      by (simp add: z pow2_def)
    have y: "of_int (roundEven (of_int z / pow2 1)) * pow2 1 = (of_int z :: rat)"
      unfolding q roundEven_of_int by (simp add: z pow2_def)
    show ?thesis
      unfolding roundPositive_def b k Let_def y using small by simp
  qed
qed

text \<open>An integer of magnitude up to \<open>2 ^ 53\<close> is a double: rounding leaves it as it is.\<close>

lemma nearestDouble_of_int:
  assumes "\<bar>z\<bar> \<le> 9007199254740992"
  shows "nearestDouble (of_int z) = Fin (of_int z)"
proof (cases "z = 0")
  case True
  then show ?thesis by (simp add: nearestDouble_def)
next
  case False
  show ?thesis
  proof (cases "0 < z")
    case True
    with assms roundPositive_of_int [of z] show ?thesis by (simp add: nearestDouble_def)
  next
    case neg: False
    with False have "0 < - z" and "- z \<le> 9007199254740992" using assms by simp_all
    then have "roundPositive (of_int (- z)) = Fin (of_int (- z))" by (rule roundPositive_of_int)
    with neg False show ?thesis by (simp add: nearestDouble_def)
  qed
qed

lemma ofInt_add:
  "\<bar>a + b\<bar> \<le> 9007199254740992 \<Longrightarrow> ofInt a + ofInt b = ofInt (a + b)"
  using nearestDouble_of_int [of "a + b"] by (simp add: ofInt_def plus_number_def)

lemma ofInt_diff:
  "\<bar>a - b\<bar> \<le> 9007199254740992 \<Longrightarrow> ofInt a - ofInt b = ofInt (a - b)"
  using nearestDouble_of_int [of "a - b"]
  by (simp add: ofInt_def minus_number_def plus_number_def negate_def)

lemma ofInt_less: "(ofInt a < ofInt b) = (a < b)"
  by (simp add: ofInt_def less_number_def)

lemma ofInt_le: "(ofInt a \<le> ofInt b) = (a \<le> b)"
  by (simp add: ofInt_def less_eq_number_def)

lemma ofInt_zero: "ofInt 0 = 0"
  by (simp add: ofInt_def zero_number_def)

lemma toInt_ofInt: "toInt (ofInt z) = z"
  by (simp add: toInt_def ofInt_def)

lemma isInteger_ofInt: "isInteger (ofInt z)"
  by (simp add: isInteger_def toInt_ofInt)

lemma orZero_ofInt: "orZero (ofInt z) = ofInt z"
  by (simp add: orZero_def ofInt_le)

lemma NaN_compare:
  "\<not> NaN < x" "\<not> x < NaN" "\<not> NaN \<le> x" "\<not> x \<le> NaN"
  by (simp_all add: less_number_def less_eq_number_def split: number.splits)

lemma NaN_arith: "x + NaN = NaN" "NaN + x = NaN" "x - NaN = NaN" "NaN - x = NaN"
  by (simp_all add: plus_number_def minus_number_def negate_def split: number.splits)

text \<open>\<open>NaN\<close> is the only number for which \<open>x <= 0\<close> is false without \<open>x > 0\<close> being true.\<close>

lemma not_le_zero: "x \<noteq> NaN \<Longrightarrow> (\<not> x \<le> 0) = (0 < x)"
  by (auto simp: less_number_def less_eq_number_def zero_number_def split: number.splits)

section \<open>Transaction validity\<close>

text \<open>
  With integer amounts \<open>isValid\<close> follows the stated rule; with doubles the test of the code
  is \<open>amount <= 0\<close>, which differs from the rule at \<open>NaN\<close> and nowhere else
  (\<open>not_le_zero\<close>).
\<close>

lemma isValid_rules_integers:
  fixes tx :: "int Transaction"
  shows "isValid (tx\<lparr>fromAddress := None\<rparr>) = True \<and>
   isValid (tx\<lparr>fromAddress := Some from\<rparr>) =
     (amount tx > 0 \<and> from \<noteq> [] \<and> toAddress tx \<noteq> [] \<and> from \<noteq> toAddress tx)"
  by (auto simp: isValid_def)

lemma isValid_rules_number:
  fixes tx :: "number Transaction"
  shows "isValid (tx\<lparr>fromAddress := None\<rparr>) = True \<and>
   isValid (tx\<lparr>fromAddress := Some from\<rparr>) =
     (\<not> amount tx \<le> 0 \<and> from \<noteq> [] \<and> toAddress tx \<noteq> [] \<and> from \<noteq> toAddress tx)"
  by (auto simp: isValid_def)

text \<open>
  Claim C4. \<open>isValid\<close> never throws and returns true whenever the sender is null; for a
  sender that is not null it returns true exactly when the amount is positive, both
  addresses are non-empty and the sender differs from the recipient. The code decides the
  amount by \<open>if (this.amount <= 0) return false\<close>, under the comment ``Check if amount is
  positive''. For the amount \<open>NaN\<close> that test is false, and \<open>NaN > 0\<close> is false too: the
  transaction from alice to bob with the amount \<open>NaN\<close> is valid for the code, and it is not
  valid by the stated rule.
\<close>

theorem isValid_accepts_NaN:
  "isValid (new_Transaction i ts (Some ''alice'') ''bob'' NaN) = True \<and> \<not> (0 < NaN)"
  by (simp add: isValid_def new_Transaction_def NaN_compare)

section \<open>The Merkle root\<close>

lemma merkleLevel_eq_specLevel: "[] \<notin> set xs \<Longrightarrow> merkleLevel H xs = specLevel H xs"
  by (induction H xs rule: merkleLevel.induct) auto

lemma specLevel_nonempty: "\<forall>x. H x \<noteq> [] \<Longrightarrow> [] \<notin> set (specLevel H xs)"
  by (induction H xs rule: specLevel.induct) (auto dest: sym)

lemma merkleLoop_eq_specLoop:
  "\<forall>x. H x \<noteq> [] \<Longrightarrow> [] \<notin> set xs \<Longrightarrow> merkleLoop H xs = specLoop H xs"
proof (induction H xs rule: merkleLoop.induct)
  case (1 H xs)
  show ?case
  proof (cases "length xs > 1")
    case True
    have lv: "merkleLevel H xs = specLevel H xs"
      using "1.prems"(2) by (rule merkleLevel_eq_specLevel)
    have ne: "[] \<notin> set (merkleLevel H xs)"
      unfolding lv using "1.prems"(1) by (rule specLevel_nonempty)
    have "merkleLoop H (merkleLevel H xs) = specLoop H (merkleLevel H xs)"
      using "1.IH" [OF True "1.prems"(1) ne] .
    then show ?thesis
      using True lv by (subst merkleLoop.simps, subst specLoop.simps) simp
  next
    case False
    then show ?thesis
      by (subst merkleLoop.simps, subst specLoop.simps) simp
  qed
qed

lemma calculateMerkleRoot_refines:
  assumes "\<forall>x. H x \<noteq> []" and "[] \<notin> set ids"
  shows "calculateMerkleRoot H ids = specMerkleRoot H ids"
proof (cases ids)
  case Nil
  then show ?thesis by (simp add: calculateMerkleRoot_def specMerkleRoot_def)
next
  case (Cons a rest)
  show ?thesis
  proof (cases rest)
    case Nil
    with Cons show ?thesis by (simp add: calculateMerkleRoot_def specMerkleRoot_def)
  next
    case (Cons b rest')
    with \<open>ids = a # rest\<close> show ?thesis
      using merkleLoop_eq_specLoop [OF assms]
      by (simp add: calculateMerkleRoot_def specMerkleRoot_def)
  qed
qed

lemma merkleLoop_length: "xs \<noteq> [] \<Longrightarrow> length (merkleLoop H xs) = 1"
proof (induction H xs rule: merkleLoop.induct)
  case (1 H xs)
  show ?case
  proof (cases "length xs > 1")
    case True
    then have "merkleLevel H xs \<noteq> []"
      using length_merkleLevel [of H xs] by (cases "merkleLevel H xs") auto
    then show ?thesis using "1.IH" True by (subst merkleLoop.simps) simp
  next
    case False
    with "1.prems" have "length xs = 1" by (cases xs) auto
    then show ?thesis by (subst merkleLoop.simps) simp
  qed
qed

lemma calculateMerkleRoot_small:
  "calculateMerkleRoot H [] = H []"
  "calculateMerkleRoot H [a] = a"
  "b \<noteq> [] \<Longrightarrow> calculateMerkleRoot H [a, b] = H (a @ b)"
  "b \<noteq> [] \<Longrightarrow> H (c @ c) \<noteq> [] \<Longrightarrow> calculateMerkleRoot H [a, b, c] = H (H (a @ b) @ H (c @ c))"
  by (simp_all add: calculateMerkleRoot_def merkleLoop.simps)


text \<open>
  A SHA-256 digest has 64 characters, so no level above the ids holds an empty string: for
  ids that are all non-empty the code computes the root of the stated rule.
\<close>

lemma sha_rounds_length: "length st = 8 \<Longrightarrow> length (sha_rounds ws ks st) = 8"
proof (induction ws arbitrary: ks st)
  case Nil
  then show ?case by simp
next
  case (Cons w ws)
  show ?case
  proof (cases "\<exists>a b c d e f g h k ks'. st = [a, b, c, d, e, f, g, h] \<and> ks = k # ks'")
    case True
    then obtain a b c d e f g h k ks' where "st = [a, b, c, d, e, f, g, h]" "ks = k # ks'"
      by blast
    then show ?thesis by (simp add: Cons.IH Let_def)
  next
    case False
    then have "sha_rounds (w # ws) ks st = st"
      by (auto split: list.splits)
    with Cons.prems show ?thesis by simp
  qed
qed

lemma sha_compress_length: "length st = 8 \<Longrightarrow> length (sha_compress st block) = 8"
  by (simp add: sha_compress_def sha_rounds_length)

lemma foldl_sha_compress_length: "length st = 8 \<Longrightarrow> length (foldl sha_compress st bs) = 8"
  by (induction bs arbitrary: st) (simp_all add: sha_compress_length)

lemma length_concat_hex32: "length (concat (map hex32 ws)) = 8 * length ws"
  by (induction ws) (simp_all add: hex32_def)

lemma length_sha256: "length (sha256 input) = 64"
  by (simp add: sha256_def Let_def length_concat_hex32 foldl_sha_compress_length sha_init_def)

lemma sha256_nonempty: "sha256 input \<noteq> []"
  using length_sha256 [of input] by auto

lemma calculateMerkleRoot_sha256_refines:
  "[] \<notin> set ids \<Longrightarrow> calculateMerkleRoot sha256 ids = specMerkleRoot sha256 ids"
  by (rule calculateMerkleRoot_refines) (simp_all add: sha256_nonempty)

text \<open>The model of SHA-256 on the two shortest test vectors of the standard, and on two inputs used below.\<close>

lemma sha256_test_vectors:
  "sha256 '''' = ''e3b0c44298fc1c149afbf4c8996fb92427ae41e4649b934ca495991b7852b855''"
  "sha256 ''abc'' = ''ba7816bf8f01cfea414140de5dae2223b00361a396177a9cb410ff61f20015ad''"
  by code_simp+

lemma sha256_a: "sha256 ''a'' = ''ca978112ca1bbdcafac231b39a23dc4da786eff8147c4e72b9807785afee48bb''"
  by code_simp

lemma sha256_aa: "sha256 ''aa'' = ''961b6dd3ede3cb8ecbaacbd68de040cd78eb2ed5889130cceb4c49268ea4d506''"
  by code_simp

text \<open>
  Claim C3. The Merkle root is \<open>hash("")\<close> on the empty sequence and the element itself on a
  one-element sequence; otherwise a level is reduced pair by pair, and the last element is
  paired with itself exactly when the level has odd length. At the two-element sequence
  \<open>["a", ""]\<close> the code pairs \<open>"a"\<close> with itself, although the level has even length: the
  result is the digest of \<open>"aa"\<close>, where the rule as stated gives the digest of \<open>"a"\<close>, and
  under SHA-256 the two differ.
\<close>

theorem calculateMerkleRoot_empty_right:
  "calculateMerkleRoot H [''a'', ''''] = H ''aa'' \<and> specMerkleRoot H [''a'', ''''] = H ''a'' \<and>
   calculateMerkleRoot sha256 [''a'', ''''] \<noteq> specMerkleRoot sha256 [''a'', '''']"
proof -
  have code: "calculateMerkleRoot H [''a'', ''''] = H ''aa''" for H
    by (simp add: calculateMerkleRoot_def merkleLoop.simps)
  have spec: "specMerkleRoot H [''a'', ''''] = H ''a''" for H
    by (simp add: specMerkleRoot_def specLoop.simps)
  have "sha256 ''aa'' \<noteq> sha256 ''a''"
    unfolding sha256_aa sha256_a by simp
  with code spec show ?thesis by simp
qed

section \<open>Submitting a transaction\<close>

text \<open>
  Claim C5. \<open>createTransaction\<close> throws when the transaction is not valid, throws when the
  sender is not null and its balance is below the amount, and otherwise appends the
  transaction to the pending pool. A failure leaves the whole state as it was; a success
  changes the pending pool only.
\<close>

theorem createTransaction_cases:
  fixes s :: "int Blockchain"
  shows "(\<not> isValid tx \<longrightarrow> createTransaction s tx = (Thrown InvalidTransaction, s)) \<and>
   (isValid tx \<and> fromAddress tx = Some a \<and> getBalance s a < amount tx \<longrightarrow>
      createTransaction s tx = (Thrown NotEnoughBalance, s)) \<and>
   (isValid tx \<and> (fromAddress tx = None \<or> (fromAddress tx = Some a \<and> amount tx \<le> getBalance s a)) \<longrightarrow>
      (\<exists>s'. createTransaction s tx = (Returned (), s') \<and>
            pendingTransactions s' = pendingTransactions s @ [tx] \<and>
            chain s' = chain s \<and> balances s' = balances s \<and>
            difficulty s' = difficulty s \<and> miningReward s' = miningReward s))"
  by (auto simp: createTransaction_def)

theorem createTransaction_cases_witness:
  "createTransaction \<lparr>chain = [], difficulty = 3, pendingTransactions = [], miningReward = 10,
                       balances = [(''alice'', 60::int)]\<rparr>
     (new_Transaction ''t1'' 5 (Some ''alice'') ''alice'' 5) =
     (Thrown InvalidTransaction,
      \<lparr>chain = [], difficulty = 3, pendingTransactions = [], miningReward = 10,
       balances = [(''alice'', 60::int)]\<rparr>) \<and>
   createTransaction \<lparr>chain = [], difficulty = 3, pendingTransactions = [], miningReward = 10,
                       balances = [(''alice'', 60::int)]\<rparr>
     (new_Transaction ''t2'' 6 (Some ''alice'') ''bob'' 61) =
     (Thrown NotEnoughBalance,
      \<lparr>chain = [], difficulty = 3, pendingTransactions = [], miningReward = 10,
       balances = [(''alice'', 60::int)]\<rparr>) \<and>
   (\<exists>s'. createTransaction \<lparr>chain = [], difficulty = 3, pendingTransactions = [], miningReward = 10,
                       balances = [(''alice'', 60::int)]\<rparr>
     (new_Transaction ''t3'' 7 (Some ''alice'') ''bob'' 60) = (Returned (), s') \<and>
     pendingTransactions s' = [new_Transaction ''t3'' 7 (Some ''alice'') ''bob'' 60] \<and>
     chain s' = [] \<and> balances s' = [(''alice'', 60)])"
  using createTransaction_cases [of "new_Transaction ''t1'' 5 (Some ''alice'') ''alice'' 5"
          "\<lparr>chain = [], difficulty = 3, pendingTransactions = [], miningReward = 10,
            balances = [(''alice'', 60::int)]\<rparr>" "''alice''"]
        createTransaction_cases [of "new_Transaction ''t2'' 6 (Some ''alice'') ''bob'' 61"
          "\<lparr>chain = [], difficulty = 3, pendingTransactions = [], miningReward = 10,
            balances = [(''alice'', 60::int)]\<rparr>" "''alice''"]
        createTransaction_cases [of "new_Transaction ''t3'' 7 (Some ''alice'') ''bob'' 60"
          "\<lparr>chain = [], difficulty = 3, pendingTransactions = [], miningReward = 10,
            balances = [(''alice'', 60::int)]\<rparr>" "''alice''"]
  by (auto simp: isValid_def new_Transaction_def getBalance_def lookupBalance_def)

section \<open>Staking\<close>



lemma lookupBalance_update:
  fixes bal :: "(string \<times> int) list"
  shows "lookupBalance (AList.update k v bal) k' = (if k' = k then v else lookupBalance bal k')"
  by (simp add: lookupBalance_def update_conv')



lemma map_of_None_notin: "map_of al k = None \<Longrightarrow> k \<notin> fst ` set al"
  by (simp add: map_of_eq_None_iff)

lemma sum_alist_update:
  fixes f :: "'v \<Rightarrow> int"
  shows "distinct (map fst al) \<Longrightarrow>
    sum_list (map (f \<circ> snd) (AList.update k v al)) =
    sum_list (map (f \<circ> snd) al) - (case map_of al k of None \<Rightarrow> 0 | Some w \<Rightarrow> f w) + f v"
  by (induction al) (auto split: option.splits)



lemma sumBalances_update:
  "distinct (map fst bal) \<Longrightarrow>
   sumBalances (AList.update k v bal) = sumBalances bal - lookupBalance bal k + v"
  using sum_alist_update [of bal "\<lambda>x. x" k v]
  by (simp add: sumBalances_def lookupBalance_def comp_def split: option.splits)







section \<open>The stake threshold\<close>

lemma stakeThreshold_stakeTokens:
  "stakeThreshold s \<Longrightarrow> stakeTokens s now a amt = (ok, s') \<Longrightarrow> stakeThreshold s'"
proof -
  assume inv: "stakeThreshold s" and run: "stakeTokens s now a amt = (ok, s')"
  have m: "minimumStake s' = minimumStake s"
    using run by (auto simp: stakeTokens_def Let_def split: if_splits option.splits)
  have "minimumStake s \<le> stake v" if "map_of (validators s') b = Some v" for b v
  proof (cases "pos_getBalance s a < amt \<or> amt < minimumStake s")
    case True
    then have "s' = s" using run by (auto simp: stakeTokens_def Let_def split: if_splits)
    with that inv show ?thesis by (auto simp: stakeThreshold_def)
  next
    case False
    then have big: "minimumStake s \<le> amt" by simp
    show ?thesis
    proof (cases "map_of (validators s) a")
      case None
      with False run have "validators s' =
          AList.update a \<lparr>address = a, stake = amt, isActive = True, joinedAt = now\<rparr> (validators s)"
        by (auto simp: stakeTokens_def Let_def)
      with that have "(b = a \<and> stake v = amt) \<or> map_of (validators s) b = Some v"
        by (auto simp: update_conv' split: if_splits)
      with big inv show ?thesis by (auto simp: stakeThreshold_def)
    next
      case (Some w)
      with False run have "validators s' =
          AList.update a (w\<lparr>stake := stake w + amt\<rparr>) (validators s)"
        by (auto simp: stakeTokens_def Let_def)
      with that have "(b = a \<and> stake v = stake w + amt) \<or> map_of (validators s) b = Some v"
        by (auto simp: update_conv' split: if_splits)
      moreover have "minimumStake s \<le> stake w" and "0 \<le> minimumStake s"
        using inv Some by (auto simp: stakeThreshold_def)
      ultimately show ?thesis using big inv by (auto simp: stakeThreshold_def)
    qed
  qed
  with m inv show ?thesis by (auto simp: stakeThreshold_def)
qed

lemma stakeThreshold_unstakeTokens:
  "stakeThreshold s \<Longrightarrow> unstakeTokens s a amt = (ok, s') \<Longrightarrow> stakeThreshold s'"
  by (auto simp: stakeThreshold_def unstakeTokens_def Let_def update_conv' delete_conv'
           split: if_splits option.splits)

lemma stakeThreshold_createTransaction:
  "stakeThreshold s \<Longrightarrow> pos_createTransaction s tx = (res, s') \<Longrightarrow> stakeThreshold s'"
  by (auto simp: stakeThreshold_def pos_createTransaction_def split: if_splits)

lemma forgeBlock_validators:
  "forgeBlock H r rid rnow bnow s = (fres, s') \<Longrightarrow>
   validators s' = validators s \<and> minimumStake s' = minimumStake s"
  by (auto simp: forgeBlock_def Let_def split: if_splits option.splits)

lemma stakeThreshold_forgeBlock:
  "stakeThreshold s \<Longrightarrow> forgeBlock H r rid rnow bnow s = (fres, s') \<Longrightarrow> stakeThreshold s'"
  using forgeBlock_validators [of H r rid rnow bnow s fres s']
  by (auto simp: stakeThreshold_def)

lemma pos_reachable_stakeThreshold: "pos_reachable H s \<Longrightarrow> stakeThreshold s"
proof (induction rule: pos_reachable.induct)
  case pos_init
  show ?case by (simp add: stakeThreshold_def new_ProofOfStakeBlockchain_def)
next
  case (pos_stake s now a amt ok s')
  then show ?case by (blast intro: stakeThreshold_stakeTokens)
next
  case (pos_unstake s a amt ok s')
  then show ?case by (blast intro: stakeThreshold_unstakeTokens)
next
  case (pos_submit s tx res s')
  then show ?case by (blast intro: stakeThreshold_createTransaction)
next
  case (pos_forge s r rid rnow bnow fres s')
  then show ?case by (blast intro: stakeThreshold_forgeBlock)
qed

lemma unstakeTokens_removes:
  "unstakeTokens s a amt = (True, s') \<Longrightarrow> map_of (validators s) a = Some v \<Longrightarrow>
   stake v - amt < minimumStake s \<Longrightarrow> map_of (validators s') a = None"
  by (auto simp: unstakeTokens_def Let_def delete_conv' split: if_splits)


text \<open>
  With integer amounts, in every reachable Proof-of-Stake state an address is in the
  validator registry exactly when the stake recorded for it is at least the minimum stake,
  and a successful \<open>unstakeTokens\<close> that leaves less than the minimum removes the entry.
\<close>

lemma stake_threshold_integers:
  assumes "pos_reachable H s"
  shows "((\<exists>v. map_of (validators s) a = Some v) \<longleftrightarrow>
          (\<exists>v. map_of (validators s) a = Some v \<and> minimumStake s \<le> stake v)) \<and>
         (\<forall>amt s' v. unstakeTokens s a amt = (True, s') \<and> map_of (validators s) a = Some v \<and>
              stake v - amt < minimumStake s \<longrightarrow> map_of (validators s') a = None)"
  using pos_reachable_stakeThreshold [OF assms] unstakeTokens_removes [of s a]
  by (auto simp: stakeThreshold_def)

text \<open>
  Claim C9. In every reachable Proof-of-Stake state an address is in the validator
  registry exactly when the stake recorded for it is at least the minimum stake. The two
  guards of \<open>stakeTokens\<close> are the comparisons \<open>balance < amount\<close> and
  \<open>amount < this.minimumStake\<close>, and both are false for the amount \<open>NaN\<close>. So in every state,
  the constructor's among them, \<open>stakeTokens(a, NaN)\<close> returns true and leaves \<open>a\<close> in the
  registry with the stake \<open>NaN\<close>, which is not at least the minimum stake; the balance of
  \<open>a\<close> is \<open>NaN\<close> then and reads as \<open>0\<close>.
\<close>

theorem stakeTokens_registers_NaN:
  fixes s :: "number ProofOfStakeBlockchain"
  shows "\<exists>s' v. stakeTokens s now a NaN = (True, s') \<and>
           map_of (validators s') a = Some v \<and> stake v = NaN \<and>
           \<not> minimumStake s' \<le> stake v \<and> pos_getBalance s' a = 0"
  by (auto simp: stakeTokens_def Let_def NaN_compare NaN_arith update_conv' pos_getBalance_def
        lookupBalance_def orZero_def split: option.splits)

section \<open>The nonce search\<close>

lemma calculateHash_cong:
  "index b = index c \<Longrightarrow> previousHash b = previousHash c \<Longrightarrow> timestamp b = timestamp c \<Longrightarrow>
   merkleRoot b = merkleRoot c \<Longrightarrow> nonce b = nonce c \<Longrightarrow> calculateHash H b = calculateHash H c"
  by (simp add: calculateHash_def)

lemma mineBlock_unfold:
  "mineBlock H d b = (if \<not> meetsTarget d (hash b) then mineBlock H d (nextNonce H b) else Some b)"
  by (subst mineBlock.simps) (simp add: nextNonce_def)

lemma minedFrom_nextNonce: "minedFrom H d (nextNonce H b) b' \<Longrightarrow> minedFrom H d b b'"
  by (auto simp: minedFrom_def nextNonce_def calculateHash_def)

lemma mineBlock_minedFrom:
  assumes "mineBlock H d b = Some b'"
  shows "minedFrom H d b b'"
proof (rule mineBlock.raw_induct [where P = minedFrom, OF _ assms])
  fix mb :: "(string \<Rightarrow> string) \<Rightarrow> nat \<Rightarrow> 'n TransactionBlock \<Rightarrow> 'n TransactionBlock option"
  fix H d b b'
  assume IH: "\<And>H d b b'. mb H d b = Some b' \<Longrightarrow> minedFrom H d b b'"
    and body: "(if \<not> meetsTarget d (hash b)
                then mb H d (b\<lparr>nonce := nonce b + 1,
                                hash := calculateHash H (b\<lparr>nonce := nonce b + 1\<rparr>)\<rparr>)
                else Some b) = Some b'"
  show "minedFrom H d b b'"
  proof (cases "meetsTarget d (hash b)")
    case True
    with body show ?thesis by (simp add: minedFrom_def)
  next
    case False
    with body have "mb H d (nextNonce H b) = Some b'" by (simp add: nextNonce_def)
    then have "minedFrom H d (nextNonce H b) b'" by (rule IH)
    then show ?thesis by (rule minedFrom_nextNonce)
  qed
qed

text \<open>Termination of the search when some nonce meets the target.\<close>

lemma hash_funpow_nextNonce:
  "hash b = calculateHash H b \<Longrightarrow>
   (nextNonce H ^^ k) b = b\<lparr>nonce := nonce b + k, hash := calculateHash H (b\<lparr>nonce := nonce b + k\<rparr>)\<rparr>"
proof (induction k)
  case 0
  then show ?case by simp
next
  case (Suc k)
  then show ?case by (simp add: nextNonce_def calculateHash_def)
qed

lemma mineBlock_returns_funpow:
  "meetsTarget d (hash ((nextNonce H ^^ k) b)) \<Longrightarrow> \<exists>b'. mineBlock H d b = Some b'"
proof (induction k arbitrary: b)
  case 0
  then show ?case by (subst mineBlock_unfold) simp
next
  case (Suc k)
  show ?case
  proof (cases "meetsTarget d (hash b)")
    case True
    then show ?thesis by (subst mineBlock_unfold) simp
  next
    case False
    have "meetsTarget d (hash ((nextNonce H ^^ k) (nextNonce H b)))"
      using Suc.prems by (simp add: funpow_swap1)
    then have "\<exists>b'. mineBlock H d (nextNonce H b) = Some b'" by (rule Suc.IH)
    with False show ?thesis by (subst mineBlock_unfold) simp
  qed
qed

lemma mineBlock_returns:
  assumes "hash b = calculateHash H b" and "sealable H d b"
  shows "\<exists>b'. mineBlock H d b = Some b'"
proof -
  from assms(2) obtain n where "meetsTarget d (calculateHash H (b\<lparr>nonce := nonce b + n\<rparr>))"
    by (auto simp: sealable_def)
  then have "meetsTarget d (hash ((nextNonce H ^^ n) b))"
    by (simp add: hash_funpow_nextNonce [OF assms(1)])
  then show ?thesis by (rule mineBlock_returns_funpow)
qed

lemma new_TransactionBlock_fields:
  "index (new_TransactionBlock H now i txs prev) = i"
  "timestamp (new_TransactionBlock H now i txs prev) = now"
  "previousHash (new_TransactionBlock H now i txs prev) = prev"
  "transactions (new_TransactionBlock H now i txs prev) = txs"
  "nonce (new_TransactionBlock H now i txs prev) = 0"
  "hash (new_TransactionBlock H now i txs prev) =
     calculateHash H (new_TransactionBlock H now i txs prev)"
  by (simp_all add: new_TransactionBlock_def Let_def calculateHash_def)

section \<open>Validity of reachable chains\<close>

lemma isChainValidFrom_iff:
  "isChainValidFrom H s i = (\<forall>k. i \<le> k \<and> k < length (chain s) \<longrightarrow> blockSealed H s k)"
proof (induction "length (chain s) - i" arbitrary: i)
  case 0
  then show ?case by (subst isChainValidFrom.simps) auto
next
  case (Suc n)
  then have lt: "i < length (chain s)" and n: "n = length (chain s) - (i + 1)" by simp_all
  have IH: "isChainValidFrom H s (i + 1) =
              (\<forall>k. i + 1 \<le> k \<and> k < length (chain s) \<longrightarrow> blockSealed H s k)"
    using Suc.hyps(1) [OF n] .
  have step: "isChainValidFrom H s i = (blockSealed H s i \<and> isChainValidFrom H s (i + 1))"
    using lt by (subst isChainValidFrom.simps) (auto simp: blockSealed_def Let_def)
  have "(\<forall>k. i \<le> k \<and> k < length (chain s) \<longrightarrow> blockSealed H s k) =
        (blockSealed H s i \<and> (\<forall>k. i + 1 \<le> k \<and> k < length (chain s) \<longrightarrow> blockSealed H s k))"
  proof (intro iffI conjI allI impI)
    assume a: "\<forall>k. i \<le> k \<and> k < length (chain s) \<longrightarrow> blockSealed H s k"
    from a lt show "blockSealed H s i" by simp
    fix k assume "i + 1 \<le> k \<and> k < length (chain s)"
    with a show "blockSealed H s k" by simp
  next
    fix k
    assume b: "blockSealed H s i \<and> (\<forall>k. i + 1 \<le> k \<and> k < length (chain s) \<longrightarrow> blockSealed H s k)"
      and k: "i \<le> k \<and> k < length (chain s)"
    show "blockSealed H s k"
    proof (cases "k = i")
      case True
      with b show ?thesis by simp
    next
      case False
      with k have "i + 1 \<le> k" by simp
      with b k show ?thesis by blast
    qed
  qed
  with step IH show ?case by simp
qed

lemma isChainValid_iff:
  "isChainValid H s = (\<forall>k. 1 \<le> k \<and> k < length (chain s) \<longrightarrow> blockSealed H s k)"
  by (simp add: isChainValid_def isChainValidFrom_iff)

lemma candidateBlock_hash:
  "hash (candidateBlock H rid rnow bnow miner s) = calculateHash H (candidateBlock H rid rnow bnow miner s)"
  by (simp add: candidateBlock_def new_TransactionBlock_fields)

lemma minePendingTransactions_result:
  assumes ne: "chain s \<noteq> []"
      and run: "minePendingTransactions H rid rnow bnow miner s = Some (res, s')"
  shows "\<exists>block. mineBlock H (difficulty s) (candidateBlock H rid rnow bnow miner s) = Some block \<and>
           res = Returned () \<and>
           s' = s\<lparr>chain := chain s @ [block],
                  balances := updateBalances (balances s)
                    (pendingTransactions s @ [new_Transaction rid rnow None miner (miningReward s)]),
                  pendingTransactions := []\<rparr>"
proof (cases "mineBlock H (difficulty s) (candidateBlock H rid rnow bnow miner s)")
  case None
  with ne run show ?thesis
    by (simp add: minePendingTransactions_def candidateBlock_def Let_def)
next
  case (Some block)
  have tx: "transactions block =
              pendingTransactions s @ [new_Transaction rid rnow None miner (miningReward s)]"
    using mineBlock_minedFrom [OF Some]
    by (simp add: minedFrom_def candidateBlock_def new_TransactionBlock_fields)
  from Some ne run tx show ?thesis
    by (auto simp: minePendingTransactions_def candidateBlock_def Let_def)
qed

lemma chainInvariant_init: "chainInvariant H (new_Blockchain H gid gnow bnow)"
  by (simp add: chainInvariant_def new_Blockchain_def)

lemma chainInvariant_createTransaction:
  assumes "chainInvariant H s" and "createTransaction s tx = (res, s')"
  shows "chainInvariant H s'"
proof -
  have "s' = s \<or> (isValid tx \<and> s' = s\<lparr>pendingTransactions := pendingTransactions s @ [tx]\<rparr>)"
    using assms(2) by (auto simp: createTransaction_def split: if_splits)
  then show ?thesis
    using assms(1) by (auto simp: chainInvariant_def blockSealed_def)
qed

lemma chainInvariant_minePendingTransactions:
  assumes inv: "chainInvariant H s"
      and run: "minePendingTransactions H rid rnow bnow miner s = Some (res, s')"
  shows "chainInvariant H s'"
proof -
  from inv have ne: "chain s \<noteq> []" by (simp add: chainInvariant_def)
  let ?reward = "new_Transaction rid rnow None miner (miningReward s)"
  let ?cand = "candidateBlock H rid rnow bnow miner s"
  from minePendingTransactions_result [OF ne run] obtain block where
    mined: "mineBlock H (difficulty s) ?cand = Some block" and
    s': "s' = s\<lparr>chain := chain s @ [block],
                 balances := updateBalances (balances s) (pendingTransactions s @ [?reward]),
                 pendingTransactions := []\<rparr>"
    by blast
  have mf: "minedFrom H (difficulty s) ?cand block" using mined by (rule mineBlock_minedFrom)
  have h: "hash block = calculateHash H block"
    using mf candidateBlock_hash [of H rid rnow bnow miner s] by (simp add: minedFrom_def)
  have p: "previousHash block = hash (last (chain s))"
    using mf by (simp add: minedFrom_def candidateBlock_def new_TransactionBlock_fields)
  have t: "transactions block = pendingTransactions s @ [?reward]"
    using mf by (simp add: minedFrom_def candidateBlock_def new_TransactionBlock_fields)
  have m: "take (difficulty s) (hash block) = getDifficultyTarget (difficulty s)"
    using mf by (simp add: minedFrom_def meetsTarget_def)
  have v: "hasValidTransactions block"
    using inv by (simp add: hasValidTransactions_def t chainInvariant_def isValid_def new_Transaction_def)
  have "chain s' ! length (chain s) = block"
    "chain s' ! (length (chain s) - 1) = last (chain s)" "difficulty s' = difficulty s"
    using ne by (simp_all add: s' nth_append last_conv_nth)
  with h p m v have new: "blockSealed H s' (length (chain s))"
    unfolding blockSealed_def by metis
  have old: "blockSealed H s' i" if "1 \<le> i" and "i < length (chain s)" for i
  proof -
    from inv that have "blockSealed H s i" by (simp add: chainInvariant_def)
    moreover from that have "i - 1 < length (chain s)" by simp
    moreover have "chain s' ! i = chain s ! i" "chain s' ! (i - 1) = chain s ! (i - 1)"
      "difficulty s' = difficulty s"
      using that by (simp_all add: s' nth_append)
    ultimately show ?thesis unfolding blockSealed_def by metis
  qed
  have "blockSealed H s' i" if "1 \<le> i" and "i < length (chain s')" for i
  proof (cases "i < length (chain s)")
    case True
    with that old show ?thesis by simp
  next
    case False
    with that have "i = length (chain s)" by (simp add: s')
    with new show ?thesis by simp
  qed
  moreover have "chain s' \<noteq> []" "difficulty s' = 3" "list_all isValid (pendingTransactions s')"
    using inv by (simp_all add: s' chainInvariant_def)
  ultimately show ?thesis by (simp add: chainInvariant_def)
qed

lemma pow_reachable_chainInvariant: "pow_reachable H s \<Longrightarrow> chainInvariant H s"
proof (induction rule: pow_reachable.induct)
  case pow_init
  show ?case by (rule chainInvariant_init)
next
  case (pow_submit s tx res s')
  then show ?case by (blast intro: chainInvariant_createTransaction)
next
  case (pow_mine s rid rnow bnow miner res s')
  then show ?case by (blast intro: chainInvariant_minePendingTransactions)
qed

text \<open>
  Claim C6, as amended. In every reachable Proof-of-Work state, every block at an index of
  at least 1, that is every block that \<open>minePendingTransactions\<close> appended, has a hash whose
  first \<open>difficulty\<close> characters are zeros. The genesis block at index 0 is built without a
  nonce search and is not covered.
\<close>

theorem mined_blocks_meet_target:
  assumes "pow_reachable H s" and "1 \<le> i" and "i < length (chain s)"
  shows "take (difficulty s) (hash (chain s ! i)) = replicate (difficulty s) CHR ''0''"
proof -
  have "blockSealed H s i"
    using pow_reachable_chainInvariant [OF assms(1)] assms(2,3) by (simp add: chainInvariant_def)
  then show ?thesis
    unfolding blockSealed_def getDifficultyTarget_def by blast
qed

section \<open>Tampering with a sealed amount\<close>

lemma tamperAmount_fields:
  "difficulty (tamperAmount s i j v) = difficulty s"
  "length (chain (tamperAmount s i j v)) = length (chain s)"
  by (simp_all add: tamperAmount_def)

lemma tamperAmount_other:
  "k \<noteq> i \<Longrightarrow> chain (tamperAmount s i j v) ! k = chain s ! k"
  by (simp add: tamperAmount_def)

lemma tamperAmount_same:
  "i < length (chain s) \<Longrightarrow>
   chain (tamperAmount s i j v) ! i =
     (chain s ! i)\<lparr>transactions := (transactions (chain s ! i))
        [j := (transactions (chain s ! i) ! j)\<lparr>amount := v\<rparr>]\<rparr>"
  by (simp add: tamperAmount_def)

lemma isValid_amount_update:
  fixes tx :: "int Transaction"
  shows "isValid tx \<Longrightarrow> fromAddress tx = None \<or> 0 < v \<Longrightarrow> isValid (tx\<lparr>amount := v\<rparr>)"
  by (auto simp: isValid_def split: option.splits if_splits)

lemma list_all_update:
  "list_all P xs \<Longrightarrow> j < length xs \<Longrightarrow> P y \<Longrightarrow> list_all P (xs[j := y])"
  by (auto simp: list_all_length nth_list_update)

text \<open>
  Claim C1 says that \<open>isChainValid\<close> returns false once the amount of a transaction in a
  sealed block has been changed. The block hash covers the stored Merkle root, which is
  computed from the transaction ids when the block is built, so no test of \<open>isChainValid\<close>
  reads the amount except \<open>isValid\<close>. On every reachable chain, a changed amount of a
  null-sender transaction, and any changed amount that is positive, leaves \<open>isChainValid\<close>
  true.
\<close>

theorem tampered_amount_not_detected:
  assumes reach: "pow_reachable H s"
      and i: "1 \<le> i" "i < length (chain s)"
      and j: "j < length (transactions (chain s ! i))"
      and v: "fromAddress (transactions (chain s ! i) ! j) = None \<or> 0 < v"
  shows "isChainValid H (tamperAmount s i j v)"
proof -
  have inv: "chainInvariant H s" using reach by (rule pow_reachable_chainInvariant)
  let ?s = "tamperAmount s i j v"
  have "blockSealed H ?s k" if k: "1 \<le> k" "k < length (chain s)" for k
  proof -
    from inv k have old: "blockSealed H s k" by (simp add: chainInvariant_def)
    have hashes: "hash (chain ?s ! n) = hash (chain s ! n)" if "n < length (chain s)" for n
      using that by (cases "n = i") (simp_all add: tamperAmount_same tamperAmount_other)
    have prev: "hash (chain ?s ! (k - 1)) = hash (chain s ! (k - 1))"
      using k by (intro hashes) simp
    show ?thesis
    proof (cases "k = i")
      case False
      then have "chain ?s ! k = chain s ! k" by (simp add: tamperAmount_other)
      with old prev show ?thesis
        unfolding blockSealed_def tamperAmount_fields by metis
    next
      case True
      from old True have valid: "list_all isValid (transactions (chain s ! i))"
        by (simp add: blockSealed_def hasValidTransactions_def)
      with j have "isValid (transactions (chain s ! i) ! j)" by (simp add: list_all_length)
      with v have "isValid ((transactions (chain s ! i) ! j)\<lparr>amount := v\<rparr>)"
        by (intro isValid_amount_update)
      with valid j have "hasValidTransactions (chain ?s ! i)"
        using i by (simp add: hasValidTransactions_def tamperAmount_same list_all_update)
      moreover have "calculateHash H (chain ?s ! i) = calculateHash H (chain s ! i)"
        using i by (simp add: tamperAmount_same calculateHash_def)
      moreover have "previousHash (chain ?s ! i) = previousHash (chain s ! i)"
        "hash (chain ?s ! i) = hash (chain s ! i)"
        using i by (simp_all add: tamperAmount_same)
      ultimately show ?thesis
        using old prev True unfolding blockSealed_def tamperAmount_fields by metis
    qed
  qed
  then show ?thesis by (simp add: isChainValid_iff tamperAmount_fields)
qed

section \<open>Balance conservation\<close>

text \<open>
  With exact integers, a transaction adds to the sum of all balances what it mints, whatever
  the balances are.
\<close>

lemma applyTransaction_sum:
  assumes "distinct (map fst bal)"
  shows "distinct (map fst (applyTransaction bal tx)) \<and>
         sumBalances (applyTransaction bal tx) = sumBalances bal + minted tx"
proof (cases "fromAddress tx = None \<or> fromAddress tx = Some []")
  case True
  then have "applyTransaction bal tx =
               AList.update (toAddress tx) (lookupBalance bal (toAddress tx) + amount tx) bal"
    by (auto simp: applyTransaction_def Let_def)
  with True assms show ?thesis
    by (simp add: sumBalances_update minted_def distinct_update)
next
  case False
  then obtain a where a: "fromAddress tx = Some a" "a \<noteq> []" by auto
  define bal1 where "bal1 = AList.update a (lookupBalance bal a - amount tx) bal"
  have d1: "distinct (map fst bal1)" using assms by (simp add: bal1_def distinct_update)
  have s1: "sumBalances bal1 = sumBalances bal - amount tx"
    using sumBalances_update [OF assms, of a "lookupBalance bal a - amount tx"]
    by (simp add: bal1_def)
  have ap: "applyTransaction bal tx =
              AList.update (toAddress tx) (lookupBalance bal1 (toAddress tx) + amount tx) bal1"
    using a by (simp add: applyTransaction_def bal1_def Let_def)
  have "sumBalances (applyTransaction bal tx) = sumBalances bal1 + amount tx"
    using sumBalances_update [OF d1, of "toAddress tx"] by (simp add: ap)
  with s1 d1 a False show ?thesis
    by (simp add: ap minted_def distinct_update)
qed

lemma updateBalances_sum:
  "distinct (map fst bal) \<Longrightarrow>
   distinct (map fst (updateBalances bal txs)) \<and>
   sumBalances (updateBalances bal txs) = sumBalances bal + sum_list (map minted txs)"
proof (induction txs arbitrary: bal)
  case Nil
  then show ?case by (simp add: updateBalances_def)
next
  case (Cons tx txs)
  from applyTransaction_sum [OF Cons.prems, of tx]
  have d: "distinct (map fst (applyTransaction bal tx))"
    and s: "sumBalances (applyTransaction bal tx) = sumBalances bal + minted tx"
    by simp_all
  from Cons.IH [OF d] s show ?case by (simp add: updateBalances_def)
qed

lemma minted_sender: "isValid tx \<Longrightarrow> fromAddress tx \<noteq> None \<Longrightarrow> minted tx = 0"
  by (auto simp: isValid_def minted_def split: option.splits if_splits)

lemma sum_list_all_zero: "\<forall>x \<in> set xs. f x = (0::int) \<Longrightarrow> sum_list (map f xs) = 0"
  by (induction xs) auto

lemma minted_block:
  assumes ne: "txs \<noteq> []" and valid: "list_all isValid txs"
      and rw: "fromAddress (last txs) = None"
      and others: "\<forall>t \<in> set (butlast txs). fromAddress t \<noteq> None"
  shows "sum_list (map minted txs) = amount (last txs)"
proof -
  have split: "txs = butlast txs @ [last txs]" using ne by simp
  have "\<forall>t \<in> set (butlast txs). minted t = 0"
  proof
    fix t assume t: "t \<in> set (butlast txs)"
    then have "t \<in> set txs" by (rule in_set_butlastD)
    with valid have "isValid t" by (simp add: list_all_iff)
    with others t show "minted t = 0" by (simp add: minted_sender)
  qed
  then have "sum_list (map minted (butlast txs)) = 0" by (rule sum_list_all_zero)
  moreover have "minted (last txs) = amount (last txs)" using rw by (simp add: minted_def)
  ultimately have "sum_list (map minted (butlast txs @ [last txs])) = amount (last txs)" by simp
  with split show ?thesis by simp
qed

subsection \<open>The ledger on doubles\<close>

text \<open>
  A balance map of doubles that hold integers is the image of a balance map of integers.
\<close>

lemma map_of_numberBalances: "map_of (numberBalances bal) k = map_option ofInt (map_of bal k)"
  by (induction bal) (auto simp: numberBalances_def)

lemma lookupBalance_numberBalances:
  "lookupBalance (numberBalances bal) k = ofInt (lookupBalance bal k)"
  by (simp add: lookupBalance_def map_of_numberBalances orZero_ofInt ofInt_zero
        split: option.splits)

lemma update_numberBalances:
  "AList.update k (ofInt v) (numberBalances bal) = numberBalances (AList.update k v bal)"
  by (induction bal) (auto simp: numberBalances_def)

lemma bounded_update:
  fixes B :: int
  shows "\<forall>v \<in> snd ` set bal. \<bar>v\<bar> \<le> B \<Longrightarrow> \<bar>w\<bar> \<le> B \<Longrightarrow>
         \<forall>v \<in> snd ` set (AList.update k w bal). \<bar>v\<bar> \<le> B"
  by (induction bal) auto

lemma bounded_lookup:
  fixes B :: int
  shows "\<forall>v \<in> snd ` set bal. \<bar>v\<bar> \<le> B \<Longrightarrow> 0 \<le> B \<Longrightarrow> \<bar>lookupBalance bal k\<bar> \<le> B"
proof (cases "map_of bal k")
  case None
  assume "0 \<le> B"
  with None show ?thesis by (simp add: lookupBalance_def)
next
  case (Some v)
  assume b: "\<forall>v \<in> snd ` set bal. \<bar>v\<bar> \<le> B"
  from Some have "(k, v) \<in> set bal" by (rule map_of_SomeD)
  then have "v \<in> snd ` set bal" by force
  with b have "\<bar>v\<bar> \<le> B" by blast
  with Some show ?thesis by (simp add: lookupBalance_def)
qed

lemma bounded_mono:
  fixes B :: int
  shows "\<forall>v \<in> snd ` set bal. \<bar>v\<bar> \<le> B \<Longrightarrow> B \<le> C \<Longrightarrow> \<forall>v \<in> snd ` set bal. \<bar>v\<bar> \<le> C"
  by fastforce

text \<open>
  One transaction with an integer amount, applied to integer balances that are small
  enough: the doubles of the code hold the integers of exact arithmetic.
\<close>

lemma applyTransaction_exact:
  fixes bal :: "(string \<times> int) list"
  assumes whole: "isInteger (amount tx)"
      and bnd: "\<forall>v \<in> snd ` set bal. \<bar>v\<bar> \<le> B" and B0: "0 \<le> B"
      and cap: "B + \<bar>toInt (amount tx)\<bar> \<le> 9007199254740992"
  shows "applyTransaction (numberBalances bal) tx =
           numberBalances (applyTransaction bal (intTransaction tx)) \<and>
         (\<forall>v \<in> snd ` set (applyTransaction bal (intTransaction tx)).
             \<bar>v\<bar> \<le> B + \<bar>toInt (amount tx)\<bar>)"
proof -
  define z where "z = toInt (amount tx)"
  define C where "C = B + \<bar>z\<bar>"
  have am: "amount tx = ofInt z" using whole by (simp add: isInteger_def z_def)
  have C: "B \<le> C" "C \<le> 9007199254740992" "0 \<le> C" using cap B0 by (simp_all add: C_def z_def)
  have bndC: "\<forall>v \<in> snd ` set bal. \<bar>v\<bar> \<le> C" using bnd C(1) by (rule bounded_mono)
  have it: "fromAddress (intTransaction tx) = fromAddress tx"
    "toAddress (intTransaction tx) = toAddress tx" "amount (intTransaction tx) = z"
    by (simp_all add: intTransaction_def z_def)
  have credit: "AList.update k (lookupBalance (numberBalances b) k + amount tx) (numberBalances b) =
                  numberBalances (AList.update k (lookupBalance b k + z) b) \<and>
                (\<forall>v \<in> snd ` set (AList.update k (lookupBalance b k + z) b). \<bar>v\<bar> \<le> C)"
    if b: "\<forall>v \<in> snd ` set b. \<bar>v\<bar> \<le> C" and l: "\<bar>lookupBalance b k + z\<bar> \<le> C" for b k
  proof -
    from l C(2) have "\<bar>lookupBalance b k + z\<bar> \<le> 9007199254740992" by simp
    then have "lookupBalance (numberBalances b) k + amount tx = ofInt (lookupBalance b k + z)"
      by (simp add: lookupBalance_numberBalances am ofInt_add)
    then show ?thesis
      using bounded_update [OF b l, of k] by (simp add: update_numberBalances)
  qed
  show ?thesis
  proof (cases "fromAddress tx = None \<or> fromAddress tx = Some []")
    case True
    have l: "\<bar>lookupBalance bal (toAddress tx) + z\<bar> \<le> C"
      using bounded_lookup [OF bnd B0, of "toAddress tx"] by (simp add: C_def)
    have ap: "applyTransaction (numberBalances bal) tx =
                AList.update (toAddress tx)
                  (lookupBalance (numberBalances bal) (toAddress tx) + amount tx) (numberBalances bal)"
      using True by (auto simp: applyTransaction_def Let_def)
    have api: "applyTransaction bal (intTransaction tx) =
                AList.update (toAddress tx) (lookupBalance bal (toAddress tx) + z) bal"
      using True by (auto simp: applyTransaction_def Let_def it)
    from credit [OF bndC l] show ?thesis
      unfolding ap api by (simp add: C_def z_def)
  next
    case False
    then obtain a where a: "fromAddress tx = Some a" "a \<noteq> []" by auto
    define bal1 where "bal1 = AList.update a (lookupBalance bal a - z) bal"
    have la: "\<bar>lookupBalance bal a\<bar> \<le> B" using bnd B0 by (rule bounded_lookup)
    then have d: "\<bar>lookupBalance bal a - z\<bar> \<le> C" by (simp add: C_def)
    with C(2) have "\<bar>lookupBalance bal a - z\<bar> \<le> 9007199254740992" by simp
    then have "lookupBalance (numberBalances bal) a - amount tx = ofInt (lookupBalance bal a - z)"
      by (simp add: lookupBalance_numberBalances am ofInt_diff)
    then have n1: "AList.update a (lookupBalance (numberBalances bal) a - amount tx) (numberBalances bal) =
                     numberBalances bal1"
      by (simp add: bal1_def update_numberBalances)
    have b1: "\<forall>v \<in> snd ` set bal1. \<bar>v\<bar> \<le> C"
      unfolding bal1_def using bndC d by (rule bounded_update)
    have l: "\<bar>lookupBalance bal1 (toAddress tx) + z\<bar> \<le> C"
    proof (cases "toAddress tx = a")
      case True
      then have "lookupBalance bal1 (toAddress tx) + z = lookupBalance bal a"
        by (simp add: bal1_def lookupBalance_update)
      with la C(1) show ?thesis by simp
    next
      case False
      then have "lookupBalance bal1 (toAddress tx) = lookupBalance bal (toAddress tx)"
        by (simp add: bal1_def lookupBalance_update)
      with bounded_lookup [OF bnd B0, of "toAddress tx"] show ?thesis by (simp add: C_def)
    qed
    have ap: "applyTransaction (numberBalances bal) tx =
                AList.update (toAddress tx)
                  (lookupBalance (numberBalances bal1) (toAddress tx) + amount tx) (numberBalances bal1)"
      using a by (simp add: applyTransaction_def Let_def n1)
    have api: "applyTransaction bal (intTransaction tx) =
                AList.update (toAddress tx) (lookupBalance bal1 (toAddress tx) + z) bal1"
      using a by (simp add: applyTransaction_def Let_def it bal1_def)
    from credit [OF b1 l] show ?thesis
      unfolding ap api by (simp add: C_def z_def)
  qed
qed

lemma updateBalances_exact:
  fixes bal :: "(string \<times> int) list"
  assumes "\<forall>t \<in> set txs. isInteger (amount t)"
      and "\<forall>v \<in> snd ` set bal. \<bar>v\<bar> \<le> B" and "0 \<le> B"
      and "B + sum_list (map (\<lambda>t. \<bar>toInt (amount t)\<bar>) txs) \<le> 9007199254740992"
  shows "updateBalances (numberBalances bal) txs =
           numberBalances (updateBalances bal (map intTransaction txs)) \<and>
         (\<forall>v \<in> snd ` set (updateBalances bal (map intTransaction txs)).
             \<bar>v\<bar> \<le> B + sum_list (map (\<lambda>t. \<bar>toInt (amount t)\<bar>) txs))"
  using assms
proof (induction txs arbitrary: bal B)
  case Nil
  then show ?case by (simp add: updateBalances_def)
next
  case (Cons tx txs)
  let ?rest = "sum_list (map (\<lambda>t. \<bar>toInt (amount t)\<bar>) txs)"
  have rest0: "0 \<le> ?rest" by (rule sum_list_nonneg) auto
  have whole: "isInteger (amount tx)" and wholes: "\<forall>t \<in> set txs. isInteger (amount t)"
    using Cons.prems(1) by simp_all
  have cap1: "B + \<bar>toInt (amount tx)\<bar> \<le> 9007199254740992"
    using Cons.prems(4) rest0 by simp
  from applyTransaction_exact [OF whole Cons.prems(2,3) cap1]
  have step: "applyTransaction (numberBalances bal) tx =
                numberBalances (applyTransaction bal (intTransaction tx))"
    and bnd: "\<forall>v \<in> snd ` set (applyTransaction bal (intTransaction tx)).
                \<bar>v\<bar> \<le> B + \<bar>toInt (amount tx)\<bar>"
    by simp_all
  have B1: "0 \<le> B + \<bar>toInt (amount tx)\<bar>" using Cons.prems(3) by simp
  have cap2: "B + \<bar>toInt (amount tx)\<bar> + ?rest \<le> 9007199254740992"
    using Cons.prems(4) by simp
  from Cons.IH [OF wholes bnd B1 cap2] step show ?case
    by (simp add: updateBalances_def add.assoc)
qed

lemma isValid_intTransaction:
  "isValid tx \<Longrightarrow> isInteger (amount tx) \<Longrightarrow> isValid (intTransaction tx)"
proof -
  assume v: "isValid tx" and w: "isInteger (amount tx)"
  have am: "amount tx = ofInt (toInt (amount tx))" using w by (simp add: isInteger_def)
  have "(amount tx \<le> 0) = (toInt (amount tx) \<le> 0)"
    by (subst am, subst ofInt_zero [symmetric]) (simp only: ofInt_le)
  with v show ?thesis
    by (auto simp: isValid_def intTransaction_def split: option.splits if_splits)
qed

lemma sealedTransactions_append:
  "chain s \<noteq> [] \<Longrightarrow>
   sealedTransactions (s\<lparr>chain := chain s @ [block], balances := bal, pendingTransactions := p\<rparr>) =
     sealedTransactions s @ transactions block"
  by (simp add: sealedTransactions_def)

lemma sealedVolume_nonneg: "0 \<le> sealedVolume s"
  unfolding sealedVolume_def by (rule sum_list_nonneg) auto

lemma numberLedger_init: "numberLedger (new_Blockchain_number H gid gnow bnow)"
proof -
  have "balances (new_Blockchain_number H gid gnow bnow) = numberBalances []"
    by (simp add: new_Blockchain_number_def numberBalances_def)
  then show ?thesis
    unfolding numberLedger_def
    by (auto simp: new_Blockchain_number_def sealedTransactions_def sealedVolume_def
          sumBalances_def intro!: exI [of _ "[]"])
qed

lemma numberLedger_createTransaction:
  assumes "numberLedger s" and "createTransaction s tx = (res, s')"
  shows "numberLedger s'"
proof -
  have "s' = s \<or> (isValid tx \<and> s' = s\<lparr>pendingTransactions := pendingTransactions s @ [tx]\<rparr>)"
    using assms(2) by (auto simp: createTransaction_def split: if_splits)
  then show ?thesis
    using assms(1) by (auto simp: numberLedger_def sealedTransactions_def sealedVolume_def)
qed

lemma numberLedger_minePendingTransactions:
  assumes inv: "numberLedger s"
      and run: "minePendingTransactions H rid rnow bnow miner s = Some (res, s')"
  shows "numberLedger s'"
proof -
  from inv have ne: "chain s \<noteq> []" by (simp add: numberLedger_def)
  let ?reward = "new_Transaction rid rnow None miner (miningReward s)"
  let ?txs = "pendingTransactions s @ [?reward]"
  let ?cand = "candidateBlock H rid rnow bnow miner s"
  let ?vol = "\<lambda>ts. sum_list (map (\<lambda>t. \<bar>toInt (amount t)\<bar>) ts)"
  from minePendingTransactions_result [OF ne run] obtain block where
    mined: "mineBlock H (difficulty s) ?cand = Some block" and
    s': "s' = s\<lparr>chain := chain s @ [block],
                 balances := updateBalances (balances s) ?txs,
                 pendingTransactions := []\<rparr>"
    by blast
  have t: "transactions block = ?txs"
    using mineBlock_minedFrom [OF mined]
    by (simp add: minedFrom_def candidateBlock_def new_TransactionBlock_fields)
  have tl: "tl (chain s') = tl (chain s) @ [block]" using ne by (simp add: s')
  have sealed: "sealedTransactions s' = sealedTransactions s @ ?txs"
    unfolding s' using ne t by (simp add: sealedTransactions_append)
  have vol: "sealedVolume s' = sealedVolume s + ?vol ?txs"
    by (simp add: sealedVolume_def sealed)
  have r: "miningReward s' = miningReward s" "miningReward s = Fin 10" "chain s' \<noteq> []"
     "pendingTransactions s' = []" "balances s' = updateBalances (balances s) ?txs"
    using inv by (simp_all add: s' numberLedger_def)
  have blk: "transactions block \<noteq> [] \<and> list_all isValid (transactions block) \<and>
             fromAddress (last (transactions block)) = None \<and>
             amount (last (transactions block)) = miningReward s"
    using inv by (simp add: t numberLedger_def isValid_def new_Transaction_def)
  have old: "\<forall>b \<in> set (tl (chain s)).
          transactions b \<noteq> [] \<and> list_all isValid (transactions b) \<and>
          fromAddress (last (transactions b)) = None \<and>
          amount (last (transactions b)) = miningReward s"
    using inv by (simp add: numberLedger_def)
  have all: "\<forall>b \<in> set (tl (chain s')).
          transactions b \<noteq> [] \<and> list_all isValid (transactions b) \<and>
          fromAddress (last (transactions b)) = None \<and>
          amount (last (transactions b)) = miningReward s'"
    unfolding tl r(1) using old blk by auto
  have exact: "\<exists>bal. balances s' = numberBalances bal \<and> distinct (map fst bal) \<and>
                (\<forall>v \<in> snd ` set bal. \<bar>v\<bar> \<le> sealedVolume s') \<and>
                sumBalances bal =
                  sum_list (map (\<lambda>t. minted (intTransaction t)) (sealedTransactions s'))"
    if whole': "\<forall>t \<in> set (sealedTransactions s'). isInteger (amount t)"
      and cap': "sealedVolume s' \<le> 9007199254740992"
  proof -
    have v0: "0 \<le> ?vol ?txs" by (rule sum_list_nonneg) auto
    have whole: "\<forall>t \<in> set (sealedTransactions s). isInteger (amount t)"
      and wtx: "\<forall>t \<in> set ?txs. isInteger (amount t)"
      using whole' unfolding sealed by auto
    have cap: "sealedVolume s \<le> 9007199254740992" using cap' v0 unfolding vol by simp
    from inv whole cap obtain bal where
      b: "balances s = numberBalances bal" and d: "distinct (map fst bal)" and
      bnd: "\<forall>v \<in> snd ` set bal. \<bar>v\<bar> \<le> sealedVolume s" and
      sum: "sumBalances bal =
              sum_list (map (\<lambda>t. minted (intTransaction t)) (sealedTransactions s))"
      unfolding numberLedger_def by blast
    have cap2: "sealedVolume s + ?vol ?txs \<le> 9007199254740992" using cap' unfolding vol .
    from updateBalances_exact [OF wtx bnd sealedVolume_nonneg cap2]
    have e: "updateBalances (numberBalances bal) ?txs =
               numberBalances (updateBalances bal (map intTransaction ?txs))"
      and bnd': "\<forall>v \<in> snd ` set (updateBalances bal (map intTransaction ?txs)).
                   \<bar>v\<bar> \<le> sealedVolume s + ?vol ?txs"
      by simp_all
    from updateBalances_sum [OF d, of "map intTransaction ?txs"]
    have d': "distinct (map fst (updateBalances bal (map intTransaction ?txs)))"
      and sum': "sumBalances (updateBalances bal (map intTransaction ?txs)) =
                   sumBalances bal + sum_list (map minted (map intTransaction ?txs))"
      by simp_all
    have "balances s' = numberBalances (updateBalances bal (map intTransaction ?txs))"
      unfolding r(5) b e ..
    moreover have "sumBalances (updateBalances bal (map intTransaction ?txs)) =
                  sum_list (map (\<lambda>t. minted (intTransaction t)) (sealedTransactions s'))"
      unfolding sum' sum sealed by (simp add: comp_def)
    moreover have "\<forall>v \<in> snd ` set (updateBalances bal (map intTransaction ?txs)).
                   \<bar>v\<bar> \<le> sealedVolume s'"
      using bnd' unfolding vol .
    ultimately show ?thesis using d' by blast
  qed
  show ?thesis
    unfolding numberLedger_def using all r(1,2,3,4) exact by simp
qed

lemma pow_reachable_numberLedger: "pow_reachable_number H s \<Longrightarrow> numberLedger s"
proof (induction rule: pow_reachable_number.induct)
  case number_init
  show ?case by (rule numberLedger_init)
next
  case (number_submit s tx res s')
  then show ?case by (blast intro: numberLedger_createTransaction)
next
  case (number_mine s rid rnow bnow miner res s')
  then show ?case by (blast intro: numberLedger_minePendingTransactions)
qed

lemma sum_list_concat_map:
  fixes f :: "'a \<Rightarrow> int"
  shows "sum_list (map f (concat xss)) = sum_list (map (\<lambda>xs. sum_list (map f xs)) xss)"
  by (induction xss) auto

lemma sum_numberBalances: "sum_list (map (toInt \<circ> snd) (numberBalances bal)) = sumBalances bal"
  by (induction bal) (auto simp: numberBalances_def sumBalances_def toInt_ofInt)

text \<open>
  The validity test and the balance test of \<open>createTransaction\<close> are comparisons, so a
  transfer of \<open>NaN\<close> between two addresses passes both, whatever the balance of the sender.
\<close>

lemma createTransaction_accepts_NaN:
  fixes s :: "number Blockchain"
  assumes "a \<noteq> []" and "b \<noteq> []" and "a \<noteq> b"
  shows "createTransaction s (new_Transaction i ts (Some a) b NaN) =
           (Returned (),
            s\<lparr>pendingTransactions :=
                 pendingTransactions s @ [new_Transaction i ts (Some a) b NaN]\<rparr>)"
  using assms by (simp add: createTransaction_def isValid_def new_Transaction_def NaN_compare)

text \<open>
  Claim C7, as amended. In every reachable Proof-of-Work state in which every sealed
  transaction other than the reward that closes its block has a sender, every sealed
  amount is an integer, and the absolute values of the sealed amounts add up to at most
  \<open>2 ^ 53\<close>, every balance is an integer and the balances add up to the mining reward of 10
  times the number of blocks after the genesis block. Under that bound no addition and no
  subtraction of the ledger rounds.
\<close>

theorem balance_conservation_integers:
  assumes reach: "pow_reachable_number H s"
      and only_rewards:
        "\<forall>b \<in> set (tl (chain s)). \<forall>t \<in> set (butlast (transactions b)). fromAddress t \<noteq> None"
      and whole: "\<forall>t \<in> set (sealedTransactions s). isInteger (amount t)"
      and cap: "sealedVolume s \<le> 9007199254740992"
  shows "miningReward s = ofInt 10 \<and> (\<forall>v \<in> snd ` set (balances s). isInteger v) \<and>
         sum_list (map (toInt \<circ> snd) (balances s)) = 10 * int (length (chain s) - 1)"
proof -
  have inv: "numberLedger s" using reach by (rule pow_reachable_numberLedger)
  from inv whole cap obtain bal where
    b: "balances s = numberBalances bal" and
    sum: "sumBalances bal =
            sum_list (map (\<lambda>t. minted (intTransaction t)) (sealedTransactions s))"
    unfolding numberLedger_def by blast
  have rw: "miningReward s = ofInt 10" using inv by (simp add: numberLedger_def ofInt_def)
  have each: "sum_list (map (\<lambda>t. minted (intTransaction t)) (transactions b)) = 10"
    if mem: "b \<in> set (tl (chain s))" for b
  proof -
    let ?txs = "map intTransaction (transactions b)"
    from inv mem have ne: "transactions b \<noteq> []" and valid: "list_all isValid (transactions b)"
      and last: "fromAddress (last (transactions b)) = None"
      and am: "amount (last (transactions b)) = Fin 10"
      by (simp_all add: numberLedger_def)
    have sub: "set (transactions b) \<subseteq> set (sealedTransactions s)"
      using mem by (auto simp: sealedTransactions_def)
    have v: "list_all isValid ?txs"
      using valid whole sub by (auto simp: list_all_iff intro: isValid_intTransaction)
    have l: "last ?txs = intTransaction (last (transactions b))"
      using ne by (simp add: last_map)
    have o: "\<forall>t \<in> set (butlast ?txs). fromAddress t \<noteq> None"
      using only_rewards mem by (auto simp: map_butlast [symmetric] intTransaction_def)
    have "sum_list (map minted ?txs) = amount (last ?txs)"
      using ne v o by (intro minted_block) (simp_all add: l intTransaction_def last)
    also have "\<dots> = 10" by (simp add: l intTransaction_def am toInt_def)
    finally show ?thesis by (simp add: comp_def)
  qed
  have "sumBalances bal =
          sum_list (map (\<lambda>b. sum_list (map (\<lambda>t. minted (intTransaction t)) (transactions b)))
             (tl (chain s)))"
    unfolding sum sealedTransactions_def by (simp add: sum_list_concat_map comp_def)
  also have "\<dots> = sum_list (map (\<lambda>b. 10) (tl (chain s)))"
    using each by (intro arg_cong [where f = sum_list] map_cong) simp_all
  also have "\<dots> = 10 * int (length (chain s) - 1)"
    by (simp add: sum_list_triv)
  finally have total: "sumBalances bal = 10 * int (length (chain s) - 1)" .
  have ints: "\<forall>v \<in> snd ` set (balances s). isInteger v"
    unfolding b by (auto simp: numberBalances_def isInteger_ofInt)
  from rw ints total show ?thesis
    unfolding b by (simp add: sum_numberBalances)
qed


section \<open>The first mined block\<close>

lemma minePendingTransactions_returns:
  assumes ne: "chain s \<noteq> []"
      and sl: "sealable H (difficulty s) (candidateBlock H rid rnow bnow miner s)"
  shows "\<exists>block.
           minedFrom H (difficulty s) (candidateBlock H rid rnow bnow miner s) block \<and>
           minePendingTransactions H rid rnow bnow miner s =
             Some (Returned (),
                   s\<lparr>chain := chain s @ [block],
                     balances := updateBalances (balances s)
                       (pendingTransactions s @ [new_Transaction rid rnow None miner (miningReward s)]),
                     pendingTransactions := []\<rparr>)"
proof -
  from mineBlock_returns [OF candidateBlock_hash sl] obtain block where
    mined: "mineBlock H (difficulty s) (candidateBlock H rid rnow bnow miner s) = Some block"
    by blast
  have mf: "minedFrom H (difficulty s) (candidateBlock H rid rnow bnow miner s) block"
    using mined by (rule mineBlock_minedFrom)
  then have tx: "transactions block =
              pendingTransactions s @ [new_Transaction rid rnow None miner (miningReward s)]"
    by (simp add: minedFrom_def candidateBlock_def new_TransactionBlock_fields)
  from mined ne tx have "minePendingTransactions H rid rnow bnow miner s =
             Some (Returned (),
                   s\<lparr>chain := chain s @ [block],
                     balances := updateBalances (balances s)
                       (pendingTransactions s @ [new_Transaction rid rnow None miner (miningReward s)]),
                     pendingTransactions := []\<rparr>)"
    by (simp add: minePendingTransactions_def candidateBlock_def Let_def)
  with mf show ?thesis by blast
qed

lemma mineBlock_sealable:
  assumes "mineBlock H d b = Some b'"
  shows "hash b = calculateHash H b \<longrightarrow> sealable H d b"
proof (rule mineBlock.raw_induct
    [where P = "\<lambda>H d b b'. hash b = calculateHash H b \<longrightarrow> sealable H d b", OF _ assms])
  fix mb :: "(string \<Rightarrow> string) \<Rightarrow> nat \<Rightarrow> 'n TransactionBlock \<Rightarrow> 'n TransactionBlock option"
  fix H d b b'
  assume IH: "\<And>H d b b'. mb H d b = Some b' \<Longrightarrow> hash b = calculateHash H b \<longrightarrow> sealable H d b"
    and body: "(if \<not> meetsTarget d (hash b)
                then mb H d (b\<lparr>nonce := nonce b + 1,
                                hash := calculateHash H (b\<lparr>nonce := nonce b + 1\<rparr>)\<rparr>)
                else Some b) = Some b'"
  show "hash b = calculateHash H b \<longrightarrow> sealable H d b"
  proof
    assume h: "hash b = calculateHash H b"
    show "sealable H d b"
    proof (cases "meetsTarget d (hash b)")
      case True
      with h have "meetsTarget d (calculateHash H (b\<lparr>nonce := nonce b + 0\<rparr>))" by simp
      then show ?thesis unfolding sealable_def by (rule exI)
    next
      case False
      with body have "mb H d (nextNonce H b) = Some b'" by (simp add: nextNonce_def)
      moreover have "hash (nextNonce H b) = calculateHash H (nextNonce H b)"
        by (simp add: nextNonce_def calculateHash_def)
      ultimately have "sealable H d (nextNonce H b)" using IH by blast
      then obtain n where
        "meetsTarget d (calculateHash H ((nextNonce H b)\<lparr>nonce := nonce (nextNonce H b) + n\<rparr>))"
        unfolding sealable_def by blast
      then have "meetsTarget d (calculateHash H (b\<lparr>nonce := nonce b + (n + 1)\<rparr>))"
        by (simp add: nextNonce_def calculateHash_def)
      then show ?thesis unfolding sealable_def by (rule exI)
    qed
  qed
qed

lemma minePendingTransactions_sealable:
  assumes ne: "chain s \<noteq> []"
      and run: "minePendingTransactions H rid rnow bnow miner s = Some r"
  shows "sealable H (difficulty s) (candidateBlock H rid rnow bnow miner s)"
proof -
  obtain res s' where r: "r = (res, s')" by (cases r)
  from minePendingTransactions_result [OF ne run [unfolded r]] obtain block where
    "mineBlock H (difficulty s) (candidateBlock H rid rnow bnow miner s) = Some block"
    by blast
  from mineBlock_sealable [OF this] candidateBlock_hash show ?thesis by blast
qed

text \<open>
  Claim C2. A fresh chain has one block, with index 0 and previous hash \<open>"0"\<close>. A
  null-sender transaction of 50 to alice is accepted. The nonce search of
  \<open>minePendingTransactions("alice")\<close> returns exactly when some nonce meets the target, and
  then the chain has two blocks, the pending pool is empty and the balance of alice is 50
  plus the mining reward of 10.
\<close>

theorem first_block_scenario:
  "length (chain (new_Blockchain H gid gnow gb)) = 1 \<and>
   index (chain (new_Blockchain H gid gnow gb) ! 0) = 0 \<and>
   previousHash (chain (new_Blockchain H gid gnow gb) ! 0) = ''0'' \<and>
   (\<exists>s1. createTransaction (new_Blockchain H gid gnow gb)
            (new_Transaction tid tnow None ''alice'' 50) = (Returned (), s1) \<and>
      ((\<exists>r. minePendingTransactions H rid rnow bnow ''alice'' s1 = Some r) \<longleftrightarrow>
         sealable H (difficulty s1) (candidateBlock H rid rnow bnow ''alice'' s1)) \<and>
      (sealable H (difficulty s1) (candidateBlock H rid rnow bnow ''alice'' s1) \<longrightarrow>
         (\<exists>s2. minePendingTransactions H rid rnow bnow ''alice'' s1 = Some (Returned (), s2) \<and>
               length (chain s2) = 2 \<and> pendingTransactions s2 = [] \<and>
               miningReward s2 = 10 \<and> getBalance s2 ''alice'' = 50 + miningReward s2)))"
proof -
  let ?s0 = "new_Blockchain H gid gnow gb"
  let ?tx = "new_Transaction tid tnow None ''alice'' 50"
  let ?s1 = "?s0\<lparr>pendingTransactions := [?tx]\<rparr>"
  have fresh: "length (chain ?s0) = 1" "index (chain ?s0 ! 0) = 0" "previousHash (chain ?s0 ! 0) = ''0''"
    by (simp_all add: new_Blockchain_def createGenesisBlock_def new_TransactionBlock_fields)
  have sub: "createTransaction ?s0 ?tx = (Returned (), ?s1)"
    by (simp add: createTransaction_def isValid_def new_Transaction_def new_Blockchain_def)
  have s1: "chain ?s1 \<noteq> []" "length (chain ?s1) = 1" "balances ?s1 = []" "miningReward ?s1 = 10"
    "pendingTransactions ?s1 = [?tx]"
    by (simp_all add: new_Blockchain_def)
  have mine: "\<exists>s2. minePendingTransactions H rid rnow bnow ''alice'' ?s1 = Some (Returned (), s2) \<and>
               length (chain s2) = 2 \<and> pendingTransactions s2 = [] \<and>
               miningReward s2 = 10 \<and> getBalance s2 ''alice'' = 50 + miningReward s2"
    if "sealable H (difficulty ?s1) (candidateBlock H rid rnow bnow ''alice'' ?s1)"
  proof -
    from minePendingTransactions_returns [OF s1(1) that] obtain block where
      run: "minePendingTransactions H rid rnow bnow ''alice'' ?s1 =
             Some (Returned (),
                   ?s1\<lparr>chain := chain ?s1 @ [block],
                     balances := updateBalances (balances ?s1)
                       (pendingTransactions ?s1 @ [new_Transaction rid rnow None ''alice'' (miningReward ?s1)]),
                     pendingTransactions := []\<rparr>)"
      by blast
    have bal: "updateBalances (balances ?s1)
                 (pendingTransactions ?s1 @ [new_Transaction rid rnow None ''alice'' (miningReward ?s1)])
               = [(''alice'', 60)]"
      unfolding s1 by (simp add: updateBalances_def applyTransaction_def new_Transaction_def
          lookupBalance_def)
    show ?thesis
      unfolding run bal using s1(2,4) by (simp add: getBalance_def lookupBalance_def)
  qed
  have iff: "(\<exists>r. minePendingTransactions H rid rnow bnow ''alice'' ?s1 = Some r) \<longleftrightarrow>
             sealable H (difficulty ?s1) (candidateBlock H rid rnow bnow ''alice'' ?s1)"
    using mine minePendingTransactions_sealable [OF s1(1), of H rid rnow bnow "''alice''"]
    by (cases "sealable H (difficulty ?s1) (candidateBlock H rid rnow bnow ''alice'' ?s1)") auto
  from fresh sub mine iff show ?thesis by blast
qed

section \<open>Concrete runs\<close>

lemma sealableI:
  "nonce b = 0 \<Longrightarrow> meetsTarget d (calculateHash H (b\<lparr>nonce := n\<rparr>)) \<Longrightarrow> sealable H d b"
  unfolding sealable_def by (rule exI [of _ n]) simp

lemma candidateBlock_nonce: "nonce (candidateBlock H rid rnow bnow miner s) = 0"
  by (simp add: candidateBlock_def new_TransactionBlock_fields)

lemma afterMining_fields:
  assumes ne: "chain s \<noteq> []"
      and sl: "sealable H (difficulty s) (candidateBlock H rid rnow bnow miner s)"
  shows "minePendingTransactions H rid rnow bnow miner s =
           Some (Returned (), afterMining H rid rnow bnow miner s)"
    and "length (chain (afterMining H rid rnow bnow miner s)) = length (chain s) + 1"
    and "transactions (chain (afterMining H rid rnow bnow miner s) ! (length (chain s))) =
           pendingTransactions s @ [new_Transaction rid rnow None miner (miningReward s)]"
    and "balances (afterMining H rid rnow bnow miner s) =
           updateBalances (balances s)
             (pendingTransactions s @ [new_Transaction rid rnow None miner (miningReward s)])"
    and "tl (chain (afterMining H rid rnow bnow miner s)) =
           tl (chain s) @ [chain (afterMining H rid rnow bnow miner s) ! (length (chain s))]"
    and "difficulty (afterMining H rid rnow bnow miner s) = difficulty s"
    and "miningReward (afterMining H rid rnow bnow miner s) = miningReward s"
    and "pendingTransactions (afterMining H rid rnow bnow miner s) = []"
proof -
  from minePendingTransactions_returns [OF ne sl] obtain block where
    mf: "minedFrom H (difficulty s) (candidateBlock H rid rnow bnow miner s) block"
    and run: "minePendingTransactions H rid rnow bnow miner s =
             Some (Returned (),
                   s\<lparr>chain := chain s @ [block],
                     balances := updateBalances (balances s)
                       (pendingTransactions s @ [new_Transaction rid rnow None miner (miningReward s)]),
                     pendingTransactions := []\<rparr>)"
    by blast
  have am: "afterMining H rid rnow bnow miner s =
              s\<lparr>chain := chain s @ [block],
                balances := updateBalances (balances s)
                  (pendingTransactions s @ [new_Transaction rid rnow None miner (miningReward s)]),
                pendingTransactions := []\<rparr>"
    by (simp add: afterMining_def run)
  have tx: "transactions block =
              pendingTransactions s @ [new_Transaction rid rnow None miner (miningReward s)]"
    using mf by (simp add: minedFrom_def candidateBlock_def new_TransactionBlock_fields)
  show "minePendingTransactions H rid rnow bnow miner s =
           Some (Returned (), afterMining H rid rnow bnow miner s)"
    by (simp add: am run)
  show "length (chain (afterMining H rid rnow bnow miner s)) = length (chain s) + 1"
    by (simp add: am)
  show "transactions (chain (afterMining H rid rnow bnow miner s) ! (length (chain s))) =
           pendingTransactions s @ [new_Transaction rid rnow None miner (miningReward s)]"
    by (simp add: am tx)
  show "balances (afterMining H rid rnow bnow miner s) =
           updateBalances (balances s)
             (pendingTransactions s @ [new_Transaction rid rnow None miner (miningReward s)])"
    by (simp add: am)
  show "tl (chain (afterMining H rid rnow bnow miner s)) =
           tl (chain s) @ [chain (afterMining H rid rnow bnow miner s) ! (length (chain s))]"
    using ne by (simp add: am)
  show "difficulty (afterMining H rid rnow bnow miner s) = difficulty s"
    by (simp add: am)
  show "miningReward (afterMining H rid rnow bnow miner s) = miningReward s"
    by (simp add: am)
  show "pendingTransactions (afterMining H rid rnow bnow miner s) = []"
    by (simp add: am)
qed

lemma createTransaction_keeps:
  "chain (snd (createTransaction s tx)) = chain s"
  "difficulty (snd (createTransaction s tx)) = difficulty s"
  "miningReward (snd (createTransaction s tx)) = miningReward s"
  "balances (snd (createTransaction s tx)) = balances s"
  by (simp_all add: createTransaction_def)

lemma createTransaction_step:
  "pow_reachable H s \<Longrightarrow> pow_reachable H (snd (createTransaction s tx))"
  by (rule pow_submit [of H s tx "fst (createTransaction s tx)"]) simp_all

lemma powDemo0_fields:
  "length (chain powDemo0) = 1" "chain powDemo0 \<noteq> []" "difficulty powDemo0 = 3"
  "miningReward powDemo0 = 10" "balances powDemo0 = []" "pendingTransactions powDemo0 = []"
  "tl (chain powDemo0) = []"
  by (simp_all add: powDemo0_def new_Blockchain_def)

lemma powDemo0_reachable: "pow_reachable sha256 powDemo0"
  unfolding powDemo0_def by (rule pow_init)

lemma powDemo0_genesis_hash:
  "hash (chain powDemo0 ! 0) = ''346204fce12a6e294ca735ef7d103fd0c33a46b2d3f8b7d9cdab5ae6d50402bc''"
  by code_simp

lemma firstPool_fields:
  "chain firstPool = chain powDemo0" "difficulty firstPool = 3" "miningReward firstPool = 10"
  "balances firstPool = []"
  "pendingTransactions firstPool =
     [new_Transaction ''9d8ad616fd35cf2c9eaa3ca931b51313'' 1762128000040 None ''alice'' 50]"
  "pow_reachable sha256 firstPool"
  unfolding firstPool_def
  by (simp_all add: createTransaction_keeps powDemo0_fields createTransaction_step powDemo0_reachable)
     (simp add: createTransaction_def isValid_def new_Transaction_def powDemo0_fields)

lemma firstPool_sealable:
  "sealable sha256 (difficulty firstPool)
     (candidateBlock sha256 ''420327f58fd2076337d5e2337304cebf'' 1762128000095 1762128000095
        ''alice'' firstPool)"
proof -
  have "meetsTarget 3 (calculateHash sha256
     ((candidateBlock sha256 ''420327f58fd2076337d5e2337304cebf'' 1762128000095 1762128000095
         ''alice'' firstPool)\<lparr>nonce := 1\<rparr>))"
    by code_simp
  then show ?thesis
    unfolding firstPool_fields(2) by (rule sealableI [OF candidateBlock_nonce])
qed

lemma firstDemo_fields:
  "pow_reachable sha256 firstDemo"
  "length (chain firstDemo) = 2"
  "transactions (chain firstDemo ! 1) =
     [new_Transaction ''9d8ad616fd35cf2c9eaa3ca931b51313'' 1762128000040 None ''alice'' 50,
      new_Transaction ''420327f58fd2076337d5e2337304cebf'' 1762128000095 None ''alice'' 10]"
  "difficulty firstDemo = 3"
proof -
  have ne: "chain firstPool \<noteq> []" by (simp add: firstPool_fields powDemo0_fields)
  note am = afterMining_fields [OF ne firstPool_sealable, folded firstDemo_def]
  show "pow_reachable sha256 firstDemo"
    by (rule pow_mine [OF firstPool_fields(6) am(1)])
  show "length (chain firstDemo) = 2"
    using am(2) by (simp add: firstPool_fields powDemo0_fields)
  show "transactions (chain firstDemo ! 1) =
     [new_Transaction ''9d8ad616fd35cf2c9eaa3ca931b51313'' 1762128000040 None ''alice'' 50,
      new_Transaction ''420327f58fd2076337d5e2337304cebf'' 1762128000095 None ''alice'' 10]"
    using am(3) by (simp add: firstPool_fields powDemo0_fields)
  show "difficulty firstDemo = 3" using am(6) by (simp add: firstPool_fields)
qed

text \<open>
  Claim C6 as stated covers every block of the chain. The genesis block of a fresh chain is
  in the chain, and its hash need not start with zeros: with the id and the clock reading
  of the run above it starts with \<open>346\<close>.
\<close>

theorem genesis_block_misses_target:
  "pow_reachable sha256 powDemo0 \<and> 0 < length (chain powDemo0) \<and>
   take (difficulty powDemo0) (hash (chain powDemo0 ! 0)) \<noteq> replicate (difficulty powDemo0) CHR ''0''"
  using powDemo0_reachable
  by (simp add: powDemo0_fields powDemo0_genesis_hash numeral_3_eq_3)

theorem mined_blocks_meet_target_witness:
  "pow_reachable sha256 firstDemo \<and> (1::nat) \<le> 1 \<and> 1 < length (chain firstDemo) \<and>
   take (difficulty firstDemo) (hash (chain firstDemo ! 1)) = replicate (difficulty firstDemo) CHR ''0''"
proof -
  have i: "(1::nat) \<le> 1" "1 < length (chain firstDemo)" by (simp_all add: firstDemo_fields)
  from mined_blocks_meet_target [OF firstDemo_fields(1) i] firstDemo_fields(1) i
  show ?thesis by simp
qed

theorem tampered_amount_not_detected_witness:
  "pow_reachable sha256 firstDemo \<and>
   amount (transactions (chain firstDemo ! 1) ! 0) = 50 \<and>
   amount (transactions (chain (tamperAmount firstDemo 1 0 1000) ! 1) ! 0) = 1000 \<and>
   isChainValid sha256 (tamperAmount firstDemo 1 0 1000)"
proof -
  have i: "(1::nat) \<le> 1" "1 < length (chain firstDemo)" by (simp_all add: firstDemo_fields)
  have j: "0 < length (transactions (chain firstDemo ! 1))" using firstDemo_fields(3) by simp
  have v: "fromAddress (transactions (chain firstDemo ! 1) ! 0) = None \<or> 0 < (1000::int)" by simp
  have valid: "isChainValid sha256 (tamperAmount firstDemo 1 0 1000)"
    using firstDemo_fields(1) i j v by (rule tampered_amount_not_detected)
  have before: "amount (transactions (chain firstDemo ! 1) ! 0) = 50"
    using firstDemo_fields(3) by (simp add: new_Transaction_def)
  have after: "amount (transactions (chain (tamperAmount firstDemo 1 0 1000) ! 1) ! 0) = 1000"
    using i j by (simp add: tamperAmount_same)
  from firstDemo_fields(1) before after valid show ?thesis by simp
qed

theorem first_block_scenario_witness:
  "\<exists>s2. minePendingTransactions sha256 ''420327f58fd2076337d5e2337304cebf'' 1762128000095
           1762128000095 ''alice''
           (snd (createTransaction
                   (new_Blockchain sha256 ''29be5d2129810b3824c2771116e58928'' 1762128000000
                      1762128000000)
                   (new_Transaction ''9d8ad616fd35cf2c9eaa3ca931b51313'' 1762128000040 None
                      ''alice'' 50))) = Some (Returned (), s2) \<and>
         length (chain s2) = 2 \<and> pendingTransactions s2 = [] \<and> getBalance s2 ''alice'' = 60"
proof -
  from first_block_scenario [of sha256 "''29be5d2129810b3824c2771116e58928''" 1762128000000
      1762128000000 "''9d8ad616fd35cf2c9eaa3ca931b51313''" 1762128000040
      "''420327f58fd2076337d5e2337304cebf''" 1762128000095 1762128000095]
  obtain s1 where
    sub: "createTransaction powDemo0
            (new_Transaction ''9d8ad616fd35cf2c9eaa3ca931b51313'' 1762128000040 None ''alice'' 50) =
          (Returned (), s1)" and
    imp: "sealable sha256 (difficulty s1)
            (candidateBlock sha256 ''420327f58fd2076337d5e2337304cebf'' 1762128000095
               1762128000095 ''alice'' s1) \<longrightarrow>
         (\<exists>s2. minePendingTransactions sha256 ''420327f58fd2076337d5e2337304cebf'' 1762128000095
                  1762128000095 ''alice'' s1 = Some (Returned (), s2) \<and>
               length (chain s2) = 2 \<and> pendingTransactions s2 = [] \<and>
               miningReward s2 = 10 \<and> getBalance s2 ''alice'' = 50 + miningReward s2)"
    unfolding powDemo0_def by blast
  from sub have eq: "s1 = firstPool" by (simp add: firstPool_def)
  from imp firstPool_sealable show ?thesis
    unfolding eq firstPool_def powDemo0_def by auto
qed

subsection \<open>Runs on doubles\<close>

lemma createTransaction_step_number:
  "pow_reachable_number H s \<Longrightarrow> pow_reachable_number H (snd (createTransaction s tx))"
  by (rule number_submit [of H s tx "fst (createTransaction s tx)"]) simp_all

lemma thousandth: "nearestDouble (1 / 1000) = Fin (1152921504606847 / 1152921504606846976)"
  by code_simp

lemma numberDemo0_fields:
  "length (chain numberDemo0) = 1" "chain numberDemo0 \<noteq> []" "difficulty numberDemo0 = 3"
  "miningReward numberDemo0 = Fin 10" "balances numberDemo0 = []"
  "pendingTransactions numberDemo0 = []" "tl (chain numberDemo0) = []"
  by (simp_all add: numberDemo0_def new_Blockchain_number_def)

lemma numberDemo0_reachable: "pow_reachable_number sha256 numberDemo0"
  unfolding numberDemo0_def by (rule number_init)

lemma numberFirst_sealable:
  "sealable sha256 (difficulty numberDemo0)
     (candidateBlock sha256 ''1514b2dd7b59992aec7ae3775133f542'' 1762128000060 1762128000060
        ''alice'' numberDemo0)"
proof -
  have "meetsTarget 3 (calculateHash sha256
     ((candidateBlock sha256 ''1514b2dd7b59992aec7ae3775133f542'' 1762128000060 1762128000060
         ''alice'' numberDemo0)\<lparr>nonce := 1\<rparr>))"
    by code_simp
  then show ?thesis
    unfolding numberDemo0_fields(3) by (rule sealableI [OF candidateBlock_nonce])
qed

lemma first_reward_booked:
  "updateBalances []
     [new_Transaction ''1514b2dd7b59992aec7ae3775133f542'' 1762128000060 None ''alice'' (Fin 10)] =
   [(''alice'', Fin 10)]"
  by code_simp

lemma numberFirst_fields:
  "pow_reachable_number sha256 numberFirst"
  "length (chain numberFirst) = 2" "chain numberFirst \<noteq> []"
  "difficulty numberFirst = 3" "miningReward numberFirst = Fin 10"
  "balances numberFirst = [(''alice'', Fin 10)]"
  "pendingTransactions numberFirst = []"
  "tl (chain numberFirst) = [chain numberFirst ! 1]"
  "transactions (chain numberFirst ! 1) =
     [new_Transaction ''1514b2dd7b59992aec7ae3775133f542'' 1762128000060 None ''alice'' (Fin 10)]"
proof -
  note am = afterMining_fields [OF numberDemo0_fields(2) numberFirst_sealable,
      folded numberFirst_def]
  show "pow_reachable_number sha256 numberFirst"
    by (rule number_mine [OF numberDemo0_reachable am(1)])
  show l: "length (chain numberFirst) = 2" using am(2) by (simp add: numberDemo0_fields)
  then show "chain numberFirst \<noteq> []" by auto
  show "difficulty numberFirst = 3" using am(6) by (simp add: numberDemo0_fields)
  show "miningReward numberFirst = Fin 10" using am(7) by (simp add: numberDemo0_fields)
  show "balances numberFirst = [(''alice'', Fin 10)]"
    using am(4) by (simp add: numberDemo0_fields first_reward_booked)
  show "pendingTransactions numberFirst = []" by (rule am(8))
  show "tl (chain numberFirst) = [chain numberFirst ! 1]"
    using am(5) by (simp add: numberDemo0_fields)
  show "transactions (chain numberFirst ! 1) =
     [new_Transaction ''1514b2dd7b59992aec7ae3775133f542'' 1762128000060 None ''alice'' (Fin 10)]"
    using am(3) by (simp add: numberDemo0_fields)
qed

lemma wholePool_fields:
  "pow_reachable_number sha256 wholePool"
  "chain wholePool = chain numberFirst" "difficulty wholePool = 3"
  "miningReward wholePool = Fin 10" "balances wholePool = [(''alice'', Fin 10)]"
  "pendingTransactions wholePool =
     [new_Transaction ''71ad34b460979f64683e0a984d06c823'' 1762128005000 (Some ''alice'') ''bob''
        (Fin 4)]"
  unfolding wholePool_def
  by (simp_all add: createTransaction_keeps numberFirst_fields createTransaction_step_number)
     (simp add: createTransaction_def isValid_def new_Transaction_def numberFirst_fields
        getBalance_def lookupBalance_def orZero_def less_number_def less_eq_number_def
        zero_number_def)

lemma wholePool_sealable:
  "sealable sha256 (difficulty wholePool)
     (candidateBlock sha256 ''70d5d461cf9c17f5d5b2dcf10f5438e4'' 1762128009000 1762128009000
        ''bob'' wholePool)"
proof -
  have "meetsTarget 3 (calculateHash sha256
     ((candidateBlock sha256 ''70d5d461cf9c17f5d5b2dcf10f5438e4'' 1762128009000 1762128009000
         ''bob'' wholePool)\<lparr>nonce := 1\<rparr>))"
    by code_simp
  then show ?thesis
    unfolding wholePool_fields(3) by (rule sealableI [OF candidateBlock_nonce])
qed

lemma whole_block_booked:
  "updateBalances [(''alice'', Fin 10)]
     [new_Transaction ''71ad34b460979f64683e0a984d06c823'' 1762128005000 (Some ''alice'') ''bob''
        (Fin 4),
      new_Transaction ''70d5d461cf9c17f5d5b2dcf10f5438e4'' 1762128009000 None ''bob'' (Fin 10)] =
   [(''alice'', Fin 6), (''bob'', Fin 14)]"
  by code_simp

lemma wholeDemo_fields:
  "pow_reachable_number sha256 wholeDemo"
  "length (chain wholeDemo) = 3"
  "miningReward wholeDemo = Fin 10"
  "balances wholeDemo = [(''alice'', Fin 6), (''bob'', Fin 14)]"
  "tl (chain wholeDemo) = [chain numberFirst ! 1, chain wholeDemo ! 2]"
  "transactions (chain wholeDemo ! 2) =
     [new_Transaction ''71ad34b460979f64683e0a984d06c823'' 1762128005000 (Some ''alice'') ''bob''
        (Fin 4),
      new_Transaction ''70d5d461cf9c17f5d5b2dcf10f5438e4'' 1762128009000 None ''bob'' (Fin 10)]"
proof -
  have ne: "chain wholePool \<noteq> []" by (simp add: wholePool_fields numberFirst_fields)
  note am = afterMining_fields [OF ne wholePool_sealable, folded wholeDemo_def]
  show "pow_reachable_number sha256 wholeDemo"
    by (rule number_mine [OF wholePool_fields(1) am(1)])
  show "length (chain wholeDemo) = 3"
    using am(2) by (simp add: wholePool_fields numberFirst_fields)
  show "miningReward wholeDemo = Fin 10" using am(7) by (simp add: wholePool_fields)
  show "balances wholeDemo = [(''alice'', Fin 6), (''bob'', Fin 14)]"
    using am(4) by (simp add: wholePool_fields whole_block_booked)
  show "tl (chain wholeDemo) = [chain numberFirst ! 1, chain wholeDemo ! 2]"
    using am(5) by (simp add: wholePool_fields numberFirst_fields)
  show "transactions (chain wholeDemo ! 2) =
     [new_Transaction ''71ad34b460979f64683e0a984d06c823'' 1762128005000 (Some ''alice'') ''bob''
        (Fin 4),
      new_Transaction ''70d5d461cf9c17f5d5b2dcf10f5438e4'' 1762128009000 None ''bob'' (Fin 10)]"
    using am(3) by (simp add: wholePool_fields numberFirst_fields)
qed

lemma wholeDemo_sealed:
  "sealedTransactions wholeDemo =
     [new_Transaction ''1514b2dd7b59992aec7ae3775133f542'' 1762128000060 None ''alice'' (Fin 10),
      new_Transaction ''71ad34b460979f64683e0a984d06c823'' 1762128005000 (Some ''alice'') ''bob''
        (Fin 4),
      new_Transaction ''70d5d461cf9c17f5d5b2dcf10f5438e4'' 1762128009000 None ''bob'' (Fin 10)]"
  using numberFirst_fields(9) by (simp add: sealedTransactions_def wholeDemo_fields(5,6))

theorem balance_conservation_integers_witness:
  "pow_reachable_number sha256 wholeDemo \<and>
   sealedTransactions wholeDemo =
     [new_Transaction ''1514b2dd7b59992aec7ae3775133f542'' 1762128000060 None ''alice'' (Fin 10),
      new_Transaction ''71ad34b460979f64683e0a984d06c823'' 1762128005000 (Some ''alice'') ''bob''
        (Fin 4),
      new_Transaction ''70d5d461cf9c17f5d5b2dcf10f5438e4'' 1762128009000 None ''bob'' (Fin 10)] \<and>
   sealedVolume wholeDemo = 24 \<and>
   balances wholeDemo = [(''alice'', Fin 6), (''bob'', Fin 14)] \<and>
   length (chain wholeDemo) = 3 \<and>
   sum_list (map (toInt \<circ> snd) (balances wholeDemo)) = 10 * 2"
proof -
  have only: "\<forall>b \<in> set (tl (chain wholeDemo)). \<forall>t \<in> set (butlast (transactions b)). fromAddress t \<noteq> None"
    using numberFirst_fields(9) wholeDemo_fields(6)
    by (simp add: wholeDemo_fields(5) new_Transaction_def)
  have whole: "\<forall>t \<in> set (sealedTransactions wholeDemo). isInteger (amount t)"
    by (simp add: wholeDemo_sealed new_Transaction_def isInteger_def toInt_def ofInt_def)
  have vol: "sealedVolume wholeDemo = 24"
    by (simp add: sealedVolume_def wholeDemo_sealed new_Transaction_def toInt_def)
  then have cap: "sealedVolume wholeDemo \<le> 9007199254740992" by simp
  from balance_conservation_integers [OF wholeDemo_fields(1) only whole cap]
  have "sum_list (map (toInt \<circ> snd) (balances wholeDemo)) = 10 * 2"
    by (simp add: wholeDemo_fields(2))
  with wholeDemo_fields(1,2,4) wholeDemo_sealed vol show ?thesis by blast
qed

lemma fractionPool_fields:
  "pow_reachable_number sha256 fractionPool"
  "chain fractionPool = chain numberFirst" "difficulty fractionPool = 3"
  "miningReward fractionPool = Fin 10" "balances fractionPool = [(''alice'', Fin 10)]"
  "pendingTransactions fractionPool =
     [new_Transaction ''71ad34b460979f64683e0a984d06c823'' 1762128005000 (Some ''alice'') ''bob''
        (Fin (1152921504606847 / 1152921504606846976))]"
  unfolding fractionPool_def thousandth
  by (simp_all add: createTransaction_keeps numberFirst_fields createTransaction_step_number)
     (simp add: createTransaction_def isValid_def new_Transaction_def numberFirst_fields
        getBalance_def lookupBalance_def orZero_def less_number_def less_eq_number_def
        zero_number_def)

lemma fractionPool_sealable:
  "sealable sha256 (difficulty fractionPool)
     (candidateBlock sha256 ''70d5d461cf9c17f5d5b2dcf10f5438e4'' 1762128009000 1762128009000
        ''alice'' fractionPool)"
proof -
  have "meetsTarget 3 (calculateHash sha256
     ((candidateBlock sha256 ''70d5d461cf9c17f5d5b2dcf10f5438e4'' 1762128009000 1762128009000
         ''alice'' fractionPool)\<lparr>nonce := 1\<rparr>))"
    by code_simp
  then show ?thesis
    unfolding fractionPool_fields(3) by (rule sealableI [OF candidateBlock_nonce])
qed

lemma fraction_block_booked:
  "updateBalances [(''alice'', Fin 10)]
     [new_Transaction ''71ad34b460979f64683e0a984d06c823'' 1762128005000 (Some ''alice'') ''bob''
        (Fin (1152921504606847 / 1152921504606846976)),
      new_Transaction ''70d5d461cf9c17f5d5b2dcf10f5438e4'' 1762128009000 None ''alice'' (Fin 10)] =
   [(''alice'', Fin (2814609029618205 / 140737488355328)),
    (''bob'', Fin (1152921504606847 / 1152921504606846976))]"
  by code_simp

lemma fraction_double_sum:
  "Fin (2814609029618205 / 140737488355328) + Fin (1152921504606847 / 1152921504606846976) =
   Fin (5629499534213121 / 281474976710656)"
  by code_simp

lemma fractionDemo_fields:
  "pow_reachable_number sha256 fractionDemo"
  "length (chain fractionDemo) = 3"
  "miningReward fractionDemo = Fin 10"
  "balances fractionDemo =
     [(''alice'', Fin (2814609029618205 / 140737488355328)),
      (''bob'', Fin (1152921504606847 / 1152921504606846976))]"
  "transactions (chain fractionDemo ! 1) =
     [new_Transaction ''1514b2dd7b59992aec7ae3775133f542'' 1762128000060 None ''alice'' (Fin 10)]"
  "transactions (chain fractionDemo ! 2) =
     [new_Transaction ''71ad34b460979f64683e0a984d06c823'' 1762128005000 (Some ''alice'') ''bob''
        (Fin (1152921504606847 / 1152921504606846976)),
      new_Transaction ''70d5d461cf9c17f5d5b2dcf10f5438e4'' 1762128009000 None ''alice'' (Fin 10)]"
proof -
  have ne: "chain fractionPool \<noteq> []" by (simp add: fractionPool_fields numberFirst_fields)
  note am = afterMining_fields [OF ne fractionPool_sealable, folded fractionDemo_def]
  show "pow_reachable_number sha256 fractionDemo"
    by (rule number_mine [OF fractionPool_fields(1) am(1)])
  show "length (chain fractionDemo) = 3"
    using am(2) by (simp add: fractionPool_fields numberFirst_fields)
  show "miningReward fractionDemo = Fin 10" using am(7) by (simp add: fractionPool_fields)
  show "balances fractionDemo =
     [(''alice'', Fin (2814609029618205 / 140737488355328)),
      (''bob'', Fin (1152921504606847 / 1152921504606846976))]"
    using am(4) by (simp add: fractionPool_fields fraction_block_booked)
  have t: "tl (chain fractionDemo) = [chain numberFirst ! 1, chain fractionDemo ! 2]"
    using am(5) by (simp add: fractionPool_fields numberFirst_fields)
  have "tl (chain fractionDemo) ! 0 = chain fractionDemo ! Suc 0"
    by (rule nth_tl) (simp add: t)
  then have "chain fractionDemo ! 1 = chain numberFirst ! 1" by (simp add: t)
  then show "transactions (chain fractionDemo ! 1) =
     [new_Transaction ''1514b2dd7b59992aec7ae3775133f542'' 1762128000060 None ''alice'' (Fin 10)]"
    using numberFirst_fields(9) by simp
  show "transactions (chain fractionDemo ! 2) =
     [new_Transaction ''71ad34b460979f64683e0a984d06c823'' 1762128005000 (Some ''alice'') ''bob''
        (Fin (1152921504606847 / 1152921504606846976)),
      new_Transaction ''70d5d461cf9c17f5d5b2dcf10f5438e4'' 1762128009000 None ''alice'' (Fin 10)]"
    using am(3) by (simp add: fractionPool_fields numberFirst_fields)
qed

text \<open>
  Claim C7 as stated covers every amount that \<open>createTransaction\<close> accepts. After a block
  mined by alice, a transfer of \<open>0.001\<close> from alice to bob is accepted and sealed in a second
  block mined by alice. The only null-sender transactions sealed are the two rewards of 10,
  and the balances are \<open>19.999000000000002\<close> for alice and \<open>0.001\<close> for bob: their sum is not
  20, neither as an exact sum nor as the double that \<open>+\<close> returns.
\<close>

theorem balance_sum_rounds:
  "pow_reachable_number sha256 fractionDemo \<and> length (chain fractionDemo) = 3 \<and>
   miningReward fractionDemo = Fin 10 \<and>
   transactions (chain fractionDemo ! 1) =
     [new_Transaction ''1514b2dd7b59992aec7ae3775133f542'' 1762128000060 None ''alice'' (Fin 10)] \<and>
   transactions (chain fractionDemo ! 2) =
     [new_Transaction ''71ad34b460979f64683e0a984d06c823'' 1762128005000 (Some ''alice'') ''bob''
        (nearestDouble (1 / 1000)),
      new_Transaction ''70d5d461cf9c17f5d5b2dcf10f5438e4'' 1762128009000 None ''alice'' (Fin 10)] \<and>
   balances fractionDemo =
     [(''alice'', Fin (2814609029618205 / 140737488355328)),
      (''bob'', Fin (1152921504606847 / 1152921504606846976))] \<and>
   (2814609029618205 / 140737488355328 + 1152921504606847 / 1152921504606846976 \<noteq> (20 :: rat)) \<and>
   Fin (2814609029618205 / 140737488355328) + Fin (1152921504606847 / 1152921504606846976) \<noteq>
     Fin 20"
  using fractionDemo_fields
  by (simp add: thousandth fraction_double_sum)

end
